theory Spec2Isabelle
  imports Main
begin

section \<open>JavaScript values\<close>

text \<open>
  The converter works on parsed JSON trees and on the canonical model objects built from
  them.  A tree is a value of \<open>json\<close>; \<open>JUndefined\<close> is the value of a property that
  was assigned \<open>undefined\<close> (lodash's \<open>_set\<close> does create such properties).  An object
  is an association list in insertion order with distinct keys.  Strings are lists of
  code units below 256 (Isabelle's \<open>char\<close>); numbers are integers that a double
  represents exactly.  JavaScript lists integer-like property names before the others
  when it enumerates an object; the model enumerates in insertion order throughout.
\<close>

datatype json =
    JUndefined
  | JNull
  | JBool bool
  | JNum int
  | JStr string
  | JArr "json list"
  | JObj "(string \<times> json) list"

type_synonym jobj = "(string \<times> json) list"

text \<open>
  \<open>TypeError\<close> is the exception the JavaScript runtime raises (a property read on
  \<open>undefined\<close> or \<open>null\<close>, a call of something that is no function, an iteration over
  something not iterable); \<open>Error\<close> carries the message of a \<open>throw new Error\<close> of
  the source.  \<open>Unmodelled\<close> marks the two places where the source's behaviour needs
  a part of JavaScript this development does not describe: the conversion of a string to
  a number in a comparison, and lodash's merge of an object into an array.
\<close>

datatype error = TypeError | Error string | Unmodelled

definition bindE :: "error + 'a \<Rightarrow> ('a \<Rightarrow> error + 'b) \<Rightarrow> error + 'b" where
  "bindE m f = (case m of Inl e \<Rightarrow> Inl e | Inr x \<Rightarrow> f x)"

fun foldE :: "('s \<Rightarrow> 'a \<Rightarrow> error + 's) \<Rightarrow> 's \<Rightarrow> 'a list \<Rightarrow> error + 's" where
  "foldE f s [] = Inr s"
| "foldE f s (x # xs) = bindE (f s x) (\<lambda>s'. foldE f s' xs)"

subsection \<open>Objects\<close>

definition obj_get :: "jobj \<Rightarrow> string \<Rightarrow> json" where
  "obj_get ob k = (case map_of ob k of None \<Rightarrow> JUndefined | Some v \<Rightarrow> v)"

definition obj_has :: "jobj \<Rightarrow> string \<Rightarrow> bool" where
  "obj_has ob k = (k \<in> set (map fst ob))"

fun obj_set :: "('k \<times> 'v) list \<Rightarrow> 'k \<Rightarrow> 'v \<Rightarrow> ('k \<times> 'v) list" where
  "obj_set [] k v = [(k, v)]"
| "obj_set ((k', v') # r) k v = (if k' = k then (k, v) # r else (k', v') # obj_set r k v)"

definition obj_del :: "jobj \<Rightarrow> string \<Rightarrow> jobj" where
  "obj_del ob k = filter (\<lambda>p. fst p \<noteq> k) ob"

subsection \<open>Operators\<close>

text \<open>\<open>x.k\<close> for one of the property names the source reads: it raises on
  \<open>undefined\<close> and \<open>null\<close>; no array, string, number or boolean has a property of
  any of these names.\<close>

definition js_prop :: "json \<Rightarrow> string \<Rightarrow> error + json" where
  "js_prop v k = (case v of
      JUndefined \<Rightarrow> Inl TypeError
    | JNull \<Rightarrow> Inl TypeError
    | JObj ob \<Rightarrow> Inr (obj_get ob k)
    | _ \<Rightarrow> Inr JUndefined)"

text \<open>\<open>_get(x, 'k')\<close>: the same read, but \<open>undefined\<close> where \<open>x.k\<close> raises.\<close>

definition lodash_get :: "json \<Rightarrow> string \<Rightarrow> json" where
  "lodash_get v k = (case v of JObj ob \<Rightarrow> obj_get ob k | _ \<Rightarrow> JUndefined)"

text \<open>The path step \<open>[0]\<close> of \<open>_get\<close>.\<close>

definition at0 :: "json \<Rightarrow> json" where
  "at0 v = (case v of
      JArr xs \<Rightarrow> (case xs of [] \<Rightarrow> JUndefined | x # _ \<Rightarrow> x)
    | JStr s \<Rightarrow> (case s of [] \<Rightarrow> JUndefined | c # _ \<Rightarrow> JStr [c])
    | JObj ob \<Rightarrow> obj_get ob ''0''
    | _ \<Rightarrow> JUndefined)"

text \<open>\<open>x.length\<close> of a value that is neither \<open>undefined\<close> nor \<open>null\<close>.\<close>

definition js_length :: "json \<Rightarrow> json" where
  "js_length v = (case v of
      JArr xs \<Rightarrow> JNum (int (length xs))
    | JStr s \<Rightarrow> JNum (int (length s))
    | JObj ob \<Rightarrow> obj_get ob ''length''
    | _ \<Rightarrow> JUndefined)"

text \<open>\<open>x > 0\<close>.\<close>

definition gt0 :: "json \<Rightarrow> error + bool" where
  "gt0 v = (case v of
      JNum n \<Rightarrow> Inr (0 < n)
    | JBool b \<Rightarrow> Inr b
    | JStr _ \<Rightarrow> Inl Unmodelled
    | JArr _ \<Rightarrow> Inl Unmodelled
    | _ \<Rightarrow> Inr False)"

definition truthy :: "json \<Rightarrow> bool" where
  "truthy v = (case v of
      JUndefined \<Rightarrow> False
    | JNull \<Rightarrow> False
    | JBool b \<Rightarrow> b
    | JNum n \<Rightarrow> n \<noteq> 0
    | JStr s \<Rightarrow> s \<noteq> []
    | _ \<Rightarrow> True)"

text \<open>\<open>x === y\<close> on two nodes of parsed trees: arrays and objects are compared by
  identity, and two nodes are never the same object.\<close>

definition strict_eq :: "json \<Rightarrow> json \<Rightarrow> bool" where
  "strict_eq a b = (case a of JArr _ \<Rightarrow> False | JObj _ \<Rightarrow> False | _ \<Rightarrow> a = b)"

text \<open>\<open>for (const x of v)\<close>.\<close>

definition iterate :: "json \<Rightarrow> error + json list" where
  "iterate v = (case v of
      JArr xs \<Rightarrow> Inr xs
    | JStr s \<Rightarrow> Inr (map (\<lambda>c. JStr [c]) s)
    | _ \<Rightarrow> Inl TypeError)"

subsection \<open>Strings\<close>

definition startsWith :: "string \<Rightarrow> string \<Rightarrow> bool" where
  "startsWith s p = (take (length p) s = p)"

text \<open>\<open>s.indexOf(p) > -1\<close>.\<close>

fun str_includes :: "string \<Rightarrow> string \<Rightarrow> bool" where
  "str_includes [] p = (p = [])"
| "str_includes (c # cs) p = (startsWith (c # cs) p \<or> str_includes cs p)"

definition digit_char :: "nat \<Rightarrow> char" where
  "digit_char d = char_of (48 + d)"

fun show_nat :: "nat \<Rightarrow> string" where
  "show_nat n = (if n < 10 then [digit_char n] else show_nat (n div 10) @ [digit_char (n mod 10)])"

declare show_nat.simps [simp del]

definition show_int :: "int \<Rightarrow> string" where
  "show_int i = (if i < 0 then CHR ''-'' # show_nat (nat (- i)) else show_nat (nat i))"

fun join_comma :: "string list \<Rightarrow> string" where
  "join_comma [] = []"
| "join_comma [s] = s"
| "join_comma (s # t # r) = s @ '','' @ join_comma (t # r)"

text \<open>The string a value becomes in a concatenation or as a property name.\<close>

fun to_string :: "json \<Rightarrow> string" where
  "to_string JUndefined = ''undefined''"
| "to_string JNull = ''null''"
| "to_string (JBool b) = (if b then ''true'' else ''false'')"
| "to_string (JNum n) = show_int n"
| "to_string (JStr s) = s"
| "to_string (JArr xs) =
     join_comma (map (\<lambda>x. if x = JNull \<or> x = JUndefined then [] else to_string x) xs)"
| "to_string (JObj ob) = ''[object Object]''"

subsection \<open>lodash\<close>

text \<open>\<open>_isEqual\<close>: deep equality; objects are equal when they have the same keys with
  equal values, in whatever order.\<close>

fun isEqual :: "json \<Rightarrow> json \<Rightarrow> bool"
  and isEqual_list :: "json list \<Rightarrow> json list \<Rightarrow> bool"
  and isEqual_fields :: "jobj \<Rightarrow> jobj \<Rightarrow> bool" where
  "isEqual (JArr xs) b = (case b of JArr ys \<Rightarrow> isEqual_list xs ys | _ \<Rightarrow> False)"
| "isEqual (JObj ob) b = (case b of
       JObj ob' \<Rightarrow> set (map fst ob) = set (map fst ob') \<and> isEqual_fields ob ob'
     | _ \<Rightarrow> False)"
| "isEqual JUndefined b = (b = JUndefined)"
| "isEqual JNull b = (b = JNull)"
| "isEqual (JBool x) b = (b = JBool x)"
| "isEqual (JNum n) b = (b = JNum n)"
| "isEqual (JStr s) b = (b = JStr s)"
| "isEqual_list [] ys = (ys = [])"
| "isEqual_list (x # xs) ys =
     (case ys of [] \<Rightarrow> False | y # ys' \<Rightarrow> isEqual x y \<and> isEqual_list xs ys')"
| "isEqual_fields [] ob' = True"
| "isEqual_fields (p # r) ob' = (isEqual (snd p) (obj_get ob' (fst p)) \<and> isEqual_fields r ob')"

text \<open>The elements of an array or of an object with a valid \<open>length\<close>
  (lodash's \<open>isArrayLikeObject\<close>).\<close>

definition array_like :: "json \<Rightarrow> json list option" where
  "array_like v = (case v of
      JArr xs \<Rightarrow> Some xs
    | JObj ob \<Rightarrow> (case obj_get ob ''length'' of
          JNum n \<Rightarrow> if 0 \<le> n \<and> n \<le> 9007199254740991
                    then Some (map (\<lambda>i. obj_get ob (show_nat i)) [0 ..< nat n]) else None
        | _ \<Rightarrow> None)
    | _ \<Rightarrow> None)"

text \<open>\<open>_difference(array, values)\<close>.\<close>

definition difference :: "json \<Rightarrow> json \<Rightarrow> json list" where
  "difference array vals = (case array_like array of
      None \<Rightarrow> []
    | Some xs \<Rightarrow>
        filter (\<lambda>x. \<not> (\<exists>v \<in> set (case array_like vals of None \<Rightarrow> [] | Some ys \<Rightarrow> ys).
                          strict_eq x v)) xs)"

section \<open>The canonical model\<close>

text \<open>
  The model types of the package \<open>@jovotech/model\<close>.  A property the importer fills from
  a native file holds whatever value the file had there, so \<open>text\<close>, \<open>value\<close> and the
  synonyms are \<open>json\<close>.  \<open>None\<close> is an absent property.
\<close>

datatype entity_type_ref = TypeName string | TypeObject "(string \<times> string) list"

record intent_entity =
  entity_type :: "entity_type_ref option"
  entity_text :: "json option"
  entity_dialogflow :: "jobj option"

record intent =
  phrases :: "string list option"
  entities :: "(string \<times> intent_entity) list option"
  intent_dialogflow :: "jobj option"

datatype entity_type_value =
    ValueString string
  | ValueObject (ev_value: json) (ev_synonyms: "json list option")

datatype type_dialogflow = DialogflowName string | DialogflowObject jobj

record entity_type =
  type_values :: "entity_type_value list option"
  type_dialogflow :: "type_dialogflow option"

record dialogflow_model =
  dialogflow_intents :: "jobj list option"
  dialogflow_entities :: "jobj list option"

record jovo_model =
  version :: "string option"
  invocation :: "string option"
  intents :: "(string \<times> intent) list option"
  entityTypes :: "(string \<times> entity_type) list option"
  model_dialogflow :: "dialogflow_model option"

record native_file =
  path :: "string list"
  content :: json

section \<open>Default tables\<close>

definition BUILTIN_PREFIX :: string where
  "BUILTIN_PREFIX = ''@sys.''"

definition DEFAULT_INTENT :: json where
  "DEFAULT_INTENT = JObj
    [(''auto'', JBool True),
     (''contexts'', JArr []),
     (''responses'', JArr [JObj
        [(''resetContexts'', JBool False),
         (''affectedContexts'', JArr []),
         (''parameters'', JArr []),
         (''defaultResponsePlatforms'', JObj []),
         (''speech'', JArr [])]]),
     (''priority'', JNum 500000),
     (''webhookUsed'', JBool False),
     (''webhookForSlotFilling'', JBool False),
     (''fallbackIntent'', JBool False),
     (''events'', JArr [])]"

definition DEFAULT_ENTITY :: json where
  "DEFAULT_ENTITY = JObj
    [(''isOverridable'', JBool True),
     (''isEnum'', JBool False),
     (''automatedExpansion'', JBool False),
     (''isRegexp'', JBool False),
     (''allowFuzzyExtraction'', JBool False)]"

section \<open>The importer\<close>

subsection \<open>skipDefaultIntentProps\<close>

text \<open>\<open>_set(jovoIntent, 'dialogflow.k', v)\<close>.\<close>

definition set_dialogflow :: "intent \<Rightarrow> string \<Rightarrow> json \<Rightarrow> intent" where
  "set_dialogflow jovoIntent k v =
     jovoIntent\<lparr>intent_dialogflow :=
       Some (obj_set (case intent_dialogflow jovoIntent of None \<Rightarrow> [] | Some d \<Rightarrow> d) k v)\<rparr>"

text \<open>\<open>_get(jovoIntent, 'dialogflow.responses[0]')\<close> and
  \<open>_set(jovoIntent, 'dialogflow.responses[0].k', v)\<close>.  The importer hands in a fresh
  intent, so \<open>responses\<close> is absent or the one-element array an earlier \<open>_set\<close> of
  the same call made.\<close>

definition get_response0 :: "intent \<Rightarrow> json" where
  "get_response0 jovoIntent =
     (case intent_dialogflow jovoIntent of None \<Rightarrow> JUndefined
      | Some d \<Rightarrow> at0 (obj_get d ''responses''))"

definition set_response0 :: "intent \<Rightarrow> string \<Rightarrow> json \<Rightarrow> intent" where
  "set_response0 jovoIntent k v =
     (let r0 = (case get_response0 jovoIntent of JObj r \<Rightarrow> r | _ \<Rightarrow> []);
          rest = (case intent_dialogflow jovoIntent of None \<Rightarrow> []
                  | Some d \<Rightarrow> (case obj_get d ''responses'' of JArr xs \<Rightarrow> tl xs | _ \<Rightarrow> []))
      in set_dialogflow jovoIntent ''responses'' (JArr (JObj (obj_set r0 k v) # rest)))"

text \<open>One turn of the loop over \<open>responses[0].messages\<close>.\<close>

definition skipDefaultIntentProps_message :: "string \<Rightarrow> intent \<Rightarrow> json \<Rightarrow> error + intent" where
  "skipDefaultIntentProps_message locale jovoIntent message =
     (if strict_eq (lodash_get message ''lang'') (JStr locale) then
        (let jovoIntentDialogflowMessages =
               (case lodash_get (get_response0 jovoIntent) ''messages'' of JArr ms \<Rightarrow> ms | _ \<Rightarrow> []);
             speech = (if lodash_get message ''speech'' = JUndefined then JStr []
                       else lodash_get message ''speech'')
         in if speech = JNull then Inl TypeError
            else bindE (gt0 (js_length speech)) (\<lambda>nonempty.
              if nonempty
              then Inr (set_response0 jovoIntent ''messages''
                          (JArr (jovoIntentDialogflowMessages @ [message])))
              else Inr jovoIntent))
      else Inr jovoIntent)"

text \<open>The block guarded by \<open>responses\<close> differing from the default.\<close>

definition skipDefaultIntentProps_responses :: "intent \<Rightarrow> json \<Rightarrow> string \<Rightarrow> error + intent" where
  "skipDefaultIntentProps_responses jovoIntent dialogFlowIntent locale =
     (let response0 = at0 (lodash_get dialogFlowIntent ''responses'');
          default0 = at0 (lodash_get DEFAULT_INTENT ''responses'');
          resetContexts = lodash_get response0 ''resetContexts'';
          i1 = (if resetContexts \<noteq> JUndefined
                   \<and> \<not> isEqual resetContexts (lodash_get default0 ''resetContexts'')
                then set_response0 jovoIntent ''resetContexts'' resetContexts else jovoIntent);
          affectedContexts = lodash_get response0 ''affectedContexts'';
          i2 = (if affectedContexts \<noteq> JUndefined
                   \<and> \<not> isEqual affectedContexts (lodash_get default0 ''affectedContexts'')
                then set_response0 i1 ''affectedContexts'' affectedContexts else i1);
          defaultResponsePlatforms = lodash_get response0 ''defaultResponsePlatforms'';
          i3 = (if defaultResponsePlatforms \<noteq> JUndefined
                   \<and> \<not> isEqual defaultResponsePlatforms
                         (lodash_get default0 ''defaultResponsePlatforms'')
                then set_response0 i2 ''defaultResponsePlatforms'' defaultResponsePlatforms
                else i2);
          messages = lodash_get response0 ''messages''
      in bindE
           (if \<not> isEqual messages (lodash_get default0 ''messages'')
            then bindE (iterate messages) (foldE (skipDefaultIntentProps_message locale) i3)
            else Inr i3)
           (\<lambda>i4.
              let responseSpeech = lodash_get response0 ''speech''
              in Inr (if responseSpeech \<noteq> JUndefined
                        \<and> \<not> isEqual responseSpeech (lodash_get default0 ''speech'')
                      then set_response0 i4 ''speech'' responseSpeech else i4)))"

definition skipDefaultIntentProps :: "intent \<Rightarrow> json \<Rightarrow> string \<Rightarrow> error + intent" where
  "skipDefaultIntentProps jovoIntent dialogFlowIntent locale =
     (let auto = lodash_get dialogFlowIntent ''auto'';
          i1 = (if \<not> strict_eq auto (lodash_get DEFAULT_INTENT ''auto'')
                then set_dialogflow jovoIntent ''auto'' auto else jovoIntent);
          contexts = lodash_get dialogFlowIntent ''contexts'';
          i2 = (if 0 < length (difference contexts (lodash_get DEFAULT_INTENT ''contexts''))
                then set_dialogflow i1 ''contexts'' contexts else i1);
          priority = lodash_get dialogFlowIntent ''priority'';
          i3 = (if priority \<noteq> JUndefined
                   \<and> \<not> strict_eq priority (lodash_get DEFAULT_INTENT ''priority'')
                then set_dialogflow i2 ''priority'' priority else i2);
          webhookUsed = lodash_get dialogFlowIntent ''webhookUsed'';
          i4 = (if webhookUsed \<noteq> JUndefined
                   \<and> \<not> strict_eq webhookUsed (lodash_get DEFAULT_INTENT ''webhookUsed'')
                then set_dialogflow i3 ''webhookUsed'' webhookUsed else i3);
          webhookForSlotFilling = lodash_get dialogFlowIntent ''webhookForSlotFilling'';
          i5 = (if webhookForSlotFilling \<noteq> JUndefined
                   \<and> \<not> strict_eq webhookForSlotFilling
                         (lodash_get DEFAULT_INTENT ''webhookForSlotFilling'')
                then set_dialogflow i4 ''webhookForSlotFilling'' webhookForSlotFilling else i4);
          fallbackIntent = lodash_get dialogFlowIntent ''fallbackIntent'';
          i6 = (if fallbackIntent \<noteq> JUndefined
                   \<and> \<not> strict_eq fallbackIntent (lodash_get DEFAULT_INTENT ''fallbackIntent'')
                then set_dialogflow i5 ''fallbackIntent'' fallbackIntent else i5);
          events = lodash_get dialogFlowIntent ''events'';
          i7 = (if 0 < length (difference events (lodash_get DEFAULT_INTENT ''events''))
                then set_dialogflow i6 ''events'' events else i6);
          responses = lodash_get dialogFlowIntent ''responses''
      in if responses = JUndefined then Inr i7
         else if responses = JNull then Inl TypeError
         else if \<not> strict_eq (js_length responses) (JNum 0)
                 \<and> \<not> isEqual responses (lodash_get DEFAULT_INTENT ''responses'')
         then skipDefaultIntentProps_responses i7 dialogFlowIntent locale
         else Inr i7)"

subsection \<open>skipDefaultEntityProps\<close>

text \<open>\<open>_set(jovoInput, 'dialogflow.k', v)\<close>.\<close>

definition set_type_dialogflow :: "entity_type \<Rightarrow> string \<Rightarrow> json \<Rightarrow> entity_type" where
  "set_type_dialogflow jovoInput k v =
     jovoInput\<lparr>type_dialogflow :=
       Some (DialogflowObject
         (obj_set (case type_dialogflow jovoInput of Some (DialogflowObject d) \<Rightarrow> d | _ \<Rightarrow> []) k v))\<rparr>"

definition skipDefaultEntityProp :: "json \<Rightarrow> string \<Rightarrow> entity_type \<Rightarrow> entity_type" where
  "skipDefaultEntityProp dialogflowEntity k jovoInput =
     (if \<not> strict_eq (lodash_get dialogflowEntity k) (lodash_get DEFAULT_ENTITY k)
      then set_type_dialogflow jovoInput k (lodash_get dialogflowEntity k) else jovoInput)"

definition skipDefaultEntityProps :: "entity_type \<Rightarrow> json \<Rightarrow> entity_type" where
  "skipDefaultEntityProps jovoInput dialogflowEntity =
     skipDefaultEntityProp dialogflowEntity ''allowFuzzyExtraction''
       (skipDefaultEntityProp dialogflowEntity ''isRegexp''
         (skipDefaultEntityProp dialogflowEntity ''automatedExpansion''
           (skipDefaultEntityProp dialogflowEntity ''isEnum''
             (skipDefaultEntityProp dialogflowEntity ''isOverridable'' jovoInput))))"

subsection \<open>toJovoModel\<close>

text \<open>\<open>_set(jovoModel, 'dialogflow.intents', v)\<close> and \<open>_get(jovoModel, 'dialogflow.intents')\<close>.\<close>

definition set_dialogflow_intents :: "jovo_model \<Rightarrow> jobj list \<Rightarrow> jovo_model" where
  "set_dialogflow_intents jovoModel v =
     jovoModel\<lparr>model_dialogflow := Some
       ((case model_dialogflow jovoModel of
           None \<Rightarrow> \<lparr>dialogflow_intents = None, dialogflow_entities = None\<rparr>
         | Some d \<Rightarrow> d)\<lparr>dialogflow_intents := Some v\<rparr>)\<rparr>"

definition get_dialogflow_intents :: "jovo_model \<Rightarrow> jobj list option" where
  "get_dialogflow_intents jovoModel =
     (case model_dialogflow jovoModel of None \<Rightarrow> None | Some d \<Rightarrow> dialogflow_intents d)"

text \<open>The body of the loop over the parameters of a response.\<close>

definition toJovoModel_parameter ::
  "(string \<times> intent_entity) list \<Rightarrow> json \<Rightarrow> error + (string \<times> intent_entity) list" where
  "toJovoModel_parameter ents parameter =
     bindE (js_prop parameter ''dataType'') (\<lambda>dataType.
       if truthy dataType then
         (case dataType of
            JStr s \<Rightarrow>
              bindE (js_prop parameter ''name'') (\<lambda>name.
                Inr (obj_set ents (to_string name)
                  \<lparr>entity_type = Some (if startsWith s ''@sys.''
                                        then TypeObject [(''dialogflow'', s)]
                                        else TypeName (drop 1 s)),
                   entity_text = None, entity_dialogflow = None\<rparr>))
          | _ \<Rightarrow> Inl TypeError)
       else Inr ents)"

definition toJovoModel_response ::
  "(string \<times> intent_entity) list \<Rightarrow> json \<Rightarrow> error + (string \<times> intent_entity) list" where
  "toJovoModel_response ents response =
     bindE (if lodash_get response ''parameters'' = JUndefined then Inr []
            else iterate (lodash_get response ''parameters''))
       (foldE toJovoModel_parameter ents)"

text \<open>The entity declarations of an intent: the loop over its responses.\<close>

definition toJovoModel_entities :: "json \<Rightarrow> error + (string \<times> intent_entity) list" where
  "toJovoModel_entities dialogFlowIntent =
     (if truthy (lodash_get dialogFlowIntent ''responses'')
      then bindE (iterate (lodash_get dialogFlowIntent ''responses''))
             (foldE toJovoModel_response [])
      else Inr [])"

text \<open>The body of the loop over the segments of a sample record; the state is the
  phrase built so far and the intent.\<close>

definition toJovoModel_data :: "string \<times> intent \<Rightarrow> json \<Rightarrow> error + string \<times> intent" where
  "toJovoModel_data st seg =
     (case st of (phrase, jovoIntent) \<Rightarrow>
       bindE (js_prop seg ''alias'') (\<lambda>alias.
       bindE (js_prop seg ''text'') (\<lambda>txt.
         Inr (phrase @ (if truthy alias then ''{'' @ to_string alias @ ''}'' else to_string txt),
              if \<not> strict_eq txt alias then
                (case entities jovoIntent of
                   None \<Rightarrow> jovoIntent
                 | Some es \<Rightarrow> jovoIntent\<lparr>entities := Some
                     (map (\<lambda>(entityKey, entityData).
                        if strict_eq (JStr entityKey) alias
                        then (entityKey, entityData\<lparr>entity_text := Some txt\<rparr>)
                        else (entityKey, entityData)) es)\<rparr>)
              else jovoIntent))))"

definition toJovoModel_userSays :: "intent \<Rightarrow> json \<Rightarrow> error + intent" where
  "toJovoModel_userSays jovoIntent us =
     bindE (js_prop us ''data'') (\<lambda>d.
     bindE (iterate d) (\<lambda>segs.
     bindE (foldE toJovoModel_data ([], jovoIntent) segs) (\<lambda>(phrase, jovoIntent').
       case phrases jovoIntent' of
         None \<Rightarrow> Inl TypeError
       | Some ps \<Rightarrow> Inr (jovoIntent'\<lparr>phrases := Some (ps @ [phrase])\<rparr>))))"

text \<open>\<open>files.find((file) => file.path[1] === name)\<close>.\<close>

definition find_file :: "native_file list \<Rightarrow> string \<Rightarrow> native_file option" where
  "find_file files name =
     List.find (\<lambda>file. case path file of _ # f # _ \<Rightarrow> f = name | _ \<Rightarrow> False) files"

text \<open>The sample phrases of an intent: the loop over the records of its companion
  file, if there is one.\<close>

definition toJovoModel_phrases ::
  "native_file list \<Rightarrow> string \<Rightarrow> string \<Rightarrow> intent \<Rightarrow> error + intent" where
  "toJovoModel_phrases intentFiles locale name jovoIntent =
     (case find_file intentFiles (name @ ''_usersays_'' @ locale @ ''.json'') of
        None \<Rightarrow> Inr jovoIntent
      | Some userSaysFile \<Rightarrow>
          bindE (iterate (content userSaysFile)) (foldE toJovoModel_userSays jovoIntent))"

text \<open>The body of the loop over the intent files.\<close>

definition toJovoModel_intent ::
  "native_file list \<Rightarrow> string \<Rightarrow> jovo_model \<Rightarrow> native_file \<Rightarrow> error + jovo_model" where
  "toJovoModel_intent intentFiles locale jovoModel fileInformation =
     (case path fileInformation of
        _ # file # _ \<Rightarrow>
          if str_includes file ''usersays'' then Inr jovoModel
          else
            let dialogFlowIntent = content fileInformation in
            bindE (skipDefaultIntentProps
                     \<lparr>phrases = Some [], entities = None, intent_dialogflow = None\<rparr>
                     dialogFlowIntent locale) (\<lambda>jovoIntent.
            bindE (js_prop dialogFlowIntent ''fallbackIntent'') (\<lambda>fallback.
            bindE (js_prop dialogFlowIntent ''name'') (\<lambda>name.
              if strict_eq fallback (JBool True) then
                (case intent_dialogflow jovoIntent of
                   None \<Rightarrow> Inl TypeError
                 | Some fallbackIntent \<Rightarrow>
                     Inr (set_dialogflow_intents jovoModel [obj_set fallbackIntent ''name'' name]))
              else if strict_eq (lodash_get (at0 (lodash_get dialogFlowIntent ''events'')) ''name'')
                        (JStr ''WELCOME'') then
                (case intent_dialogflow jovoIntent of
                   None \<Rightarrow> Inl TypeError
                 | Some welcomeIntent \<Rightarrow>
                     (case get_dialogflow_intents jovoModel of
                        None \<Rightarrow>
                          Inr (set_dialogflow_intents jovoModel [obj_set welcomeIntent ''name'' name])
                      | Some l \<Rightarrow>
                          Inr (set_dialogflow_intents jovoModel
                                 (l @ [obj_set welcomeIntent ''name'' name]))))
              else
                bindE (toJovoModel_entities dialogFlowIntent) (\<lambda>es.
                let jovoIntent1 = (if 0 < length es then jovoIntent\<lparr>entities := Some es\<rparr>
                                   else jovoIntent) in
                bindE (toJovoModel_phrases intentFiles locale (to_string name) jovoIntent1)
                  (\<lambda>jovoIntent2.
                case intents jovoModel of
                  None \<Rightarrow> Inl TypeError
                | Some m \<Rightarrow>
                    Inr (jovoModel\<lparr>intents := Some (obj_set m (to_string name) jovoIntent2)\<rparr>))))))
      | _ \<Rightarrow> Inl TypeError)"

text \<open>The body of the loop over the entries of an entries file.\<close>

definition toJovoModel_entry :: "json \<Rightarrow> entity_type \<Rightarrow> json \<Rightarrow> error + entity_type" where
  "toJovoModel_entry dialogFlowEntity jovoEntity entry =
     bindE (js_prop entry ''value'') (\<lambda>v.
     bindE (if \<not> truthy (lodash_get dialogFlowEntity ''isEnum'')
               \<and> \<not> truthy (lodash_get dialogFlowEntity ''isRegexp'')
            then bindE (js_prop entry ''synonyms'') (\<lambda>syns.
                 bindE (iterate syns) (\<lambda>l.
                   let tempSynonyms = filter (\<lambda>synonym. \<not> strict_eq synonym v) l
                   in Inr (ValueObject v
                            (if length tempSynonyms \<noteq> 0 then Some tempSynonyms else None))))
            else Inr (ValueObject v None)) (\<lambda>val.
       case type_values jovoEntity of
         None \<Rightarrow> Inl TypeError
       | Some vs \<Rightarrow> Inr (jovoEntity\<lparr>type_values := Some (vs @ [val])\<rparr>)))"

text \<open>The values of an entity type: the loop over the entries of its companion file,
  if there is one.\<close>

definition toJovoModel_entries ::
  "native_file list \<Rightarrow> string \<Rightarrow> json \<Rightarrow> string \<Rightarrow> entity_type \<Rightarrow> error + entity_type" where
  "toJovoModel_entries entityFiles locale dialogFlowEntity name jovoEntity =
     (case find_file entityFiles (name @ ''_entries_'' @ locale @ ''.json'') of
        None \<Rightarrow> Inr jovoEntity
      | Some userSaysFile \<Rightarrow>
          bindE (iterate (content userSaysFile))
            (foldE (toJovoModel_entry dialogFlowEntity) jovoEntity))"

text \<open>The body of the loop over the entity files.\<close>

definition toJovoModel_entity ::
  "native_file list \<Rightarrow> string \<Rightarrow> jovo_model \<Rightarrow> native_file \<Rightarrow> error + jovo_model" where
  "toJovoModel_entity entityFiles locale jovoModel fileInformation =
     (case path fileInformation of
        _ # file # _ \<Rightarrow>
          if str_includes file ''entries'' then Inr jovoModel
          else
            let dialogFlowEntity = content fileInformation;
                jovoEntity = skipDefaultEntityProps
                  \<lparr>type_values = Some [], type_dialogflow = None\<rparr> dialogFlowEntity in
            bindE (js_prop dialogFlowEntity ''name'') (\<lambda>name.
            bindE (toJovoModel_entries entityFiles locale dialogFlowEntity (to_string name)
                     jovoEntity) (\<lambda>jovoEntity'.
              case entityTypes jovoModel of
                None \<Rightarrow> Inl TypeError
              | Some m \<Rightarrow>
                  Inr (jovoModel\<lparr>entityTypes := Some (obj_set m (to_string name) jovoEntity')\<rparr>)))
      | _ \<Rightarrow> Inl TypeError)"

definition toJovoModel :: "native_file list \<Rightarrow> string \<Rightarrow> error + jovo_model" where
  "toJovoModel inputData locale =
     (let jovoModel = \<lparr>version = Some ''4.0'', invocation = Some [], intents = Some [],
                        entityTypes = Some [], model_dialogflow = None\<rparr>;
          intentFiles = filter (\<lambda>file. length (path file) \<noteq> 0 \<and> hd (path file) = ''intents'')
                          inputData;
          entityFiles = filter (\<lambda>file. length (path file) \<noteq> 0 \<and> hd (path file) = ''entities'')
                          inputData
      in bindE (foldE (toJovoModel_intent intentFiles locale) jovoModel intentFiles)
           (\<lambda>jovoModel'. foldE (toJovoModel_entity entityFiles locale) jovoModel' entityFiles))"

section \<open>The exporter\<close>

subsection \<open>lodash's merge\<close>

text \<open>
  \<open>_merge(object, source)\<close> walks the keys of \<open>source\<close>.  An array or object value is
  merged into what \<open>object\<close> has under the key (an array index by index, an object key
  by key), starting from an empty array or object when \<open>object\<close> has nothing of that
  kind there; any other value replaces the one of \<open>object\<close>, except that
  \<open>undefined\<close> leaves an existing value alone.  The first argument of \<open>merge_value\<close>
  is the value \<open>object\<close> has under the key (\<open>JUndefined\<close> when it has none), the
  result is the value the key has afterwards.  Merging an object into an array gives an
  array with named properties, which \<open>json\<close> cannot hold.
\<close>

fun merge_value :: "json \<Rightarrow> json \<Rightarrow> error + json"
  and merge_object :: "jobj \<Rightarrow> jobj \<Rightarrow> error + jobj"
  and merge_array :: "json list \<Rightarrow> json list \<Rightarrow> error + json list" where
  "merge_value objValue (JArr ys) =
     bindE (merge_array (case array_like objValue of None \<Rightarrow> [] | Some xs \<Rightarrow> xs) ys)
       (\<lambda>r. Inr (JArr r))"
| "merge_value objValue (JObj src) =
     (case objValue of
        JObj ob \<Rightarrow> bindE (merge_object ob src) (\<lambda>r. Inr (JObj r))
      | JArr _ \<Rightarrow> Inl Unmodelled
      | _ \<Rightarrow> bindE (merge_object [] src) (\<lambda>r. Inr (JObj r)))"
| "merge_value objValue JUndefined = Inr objValue"
| "merge_value objValue JNull = Inr JNull"
| "merge_value objValue (JBool b) = Inr (JBool b)"
| "merge_value objValue (JNum n) = Inr (JNum n)"
| "merge_value objValue (JStr s) = Inr (JStr s)"
| "merge_object ob [] = Inr ob"
| "merge_object ob (p # src) =
     bindE (merge_value (obj_get ob (fst p)) (snd p))
       (\<lambda>v. merge_object (obj_set ob (fst p) v) src)"
| "merge_array xs [] = Inr xs"
| "merge_array xs (y # ys) =
     bindE (merge_value (case xs of [] \<Rightarrow> JUndefined | x # _ \<Rightarrow> x) y)
       (\<lambda>v. bindE (merge_array (tl xs) ys) (\<lambda>r. Inr (v # r)))"

subsection \<open>The accessor layer\<close>

text \<open>
  Modelled from the spec: \<open>JovoModelHelper\<close> of the package \<open>@jovotech/model\<close> is
  not among the sources.  The spec describes it as the layer that reads intents, entities
  and entity types irrespective of the schema version and tells a legacy model from a
  current one.  \<open>jovo_model\<close> is the view this layer gives of either shape; a model is
  current when its version is the one the importer writes.
\<close>

definition getIntents :: "jovo_model \<Rightarrow> (string \<times> intent) list" where
  "getIntents model = (case intents model of None \<Rightarrow> [] | Some m \<Rightarrow> m)"

definition getEntities :: "jovo_model \<Rightarrow> string \<Rightarrow> (string \<times> intent_entity) list" where
  "getEntities model intentKey =
     (case map_of (getIntents model) intentKey of
        None \<Rightarrow> []
      | Some i \<Rightarrow> (case entities i of None \<Rightarrow> [] | Some es \<Rightarrow> es))"

definition hasEntities :: "jovo_model \<Rightarrow> string \<Rightarrow> bool" where
  "hasEntities model intentKey =
     (case map_of (getIntents model) intentKey of
        None \<Rightarrow> False
      | Some i \<Rightarrow> entities i \<noteq> None)"

definition hasEntityTypes :: "jovo_model \<Rightarrow> bool" where
  "hasEntityTypes model = (entityTypes model \<noteq> None)"

definition getEntityTypeByName :: "jovo_model \<Rightarrow> string \<Rightarrow> entity_type option" where
  "getEntityTypeByName model name =
     (case entityTypes model of None \<Rightarrow> None | Some m \<Rightarrow> map_of m name)"

definition isJovoModelV3 :: "jovo_model \<Rightarrow> bool" where
  "isJovoModelV3 model = (version model \<noteq> Some ''4.0'')"

text \<open>
  Modelled from the spec: the constant \<open>DIALOGFLOW_LM_ENTITY\<close> of \<open>./utils\<close> is not
  among the sources.  It is the platform's entity-default template, the seed of an exported
  entity record, which the spec identifies with the default table for entity types.
\<close>

definition DIALOGFLOW_LM_ENTITY :: jobj where
  "DIALOGFLOW_LM_ENTITY =
    [(''isOverridable'', JBool True),
     (''isEnum'', JBool False),
     (''automatedExpansion'', JBool False),
     (''isRegexp'', JBool False),
     (''allowFuzzyExtraction'', JBool False)]"

subsection \<open>Synonyms\<close>

text \<open>
  The regular expression \<open>/[^0-9A-Za-z\<dots>-_' ]/gi\<close>, where the dots stand for the range
  from U+00C0 to U+00FF.  It matches one code unit that is not in the class, and with the
  flag \<open>i\<close> a code unit \<open>ch\<close> is in the class when some member \<open>a\<close> of the class as
  written has the same canonical form, \<open>Canonicalize(a) = Canonicalize(ch)\<close>.  The
  canonical form of a code unit is its upper case, unless that is more than one code unit
  (as for U+00DF) or the upper case of a code unit from 128 on is below 128.

  \<open>to_upper\<close> is the upper case of a single code unit for the code units below 256 and
  for U+0178, which is the upper case of U+00FF and of itself.  The development does not
  describe the upper case of the other code units from 256 on, and no property is stated
  about them.
\<close>

definition to_upper :: "nat \<Rightarrow> nat" where
  "to_upper n =
     (if 97 \<le> n \<and> n \<le> 122 then n - 32
      else if n = 181 then 924
      else if (224 \<le> n \<and> n \<le> 246) \<or> (248 \<le> n \<and> n \<le> 254) then n - 32
      else if n = 255 then 376
      else n)"

definition canonicalize :: "nat \<Rightarrow> nat" where
  "canonicalize ch = (let cu = to_upper ch in if 128 \<le> ch \<and> cu < 128 then ch else cu)"

text \<open>The class as written: \<open>0-9\<close>, \<open>A-Z\<close>, \<open>a-z\<close>, the range from U+00C0 to U+00FF,
  and the single characters hyphen, underscore, apostrophe and space.\<close>

definition in_class :: "nat \<Rightarrow> bool" where
  "in_class a =
     ((48 \<le> a \<and> a \<le> 57) \<or> (65 \<le> a \<and> a \<le> 90) \<or> (97 \<le> a \<and> a \<le> 122)
      \<or> (192 \<le> a \<and> a \<le> 255) \<or> a = 45 \<or> a = 95 \<or> a = 39 \<or> a = 32)"

text \<open>The class with the flag \<open>i\<close>; every member of the class as written is below 256.\<close>

definition class_member :: "nat \<Rightarrow> bool" where
  "class_member ch =
     list_ex (\<lambda>a. in_class a \<and> canonicalize a = canonicalize ch) [0 ..< 256]"

text \<open>A character of a string that the replacement keeps.  A string of the development
  holds code units below 256.\<close>

definition kept_char :: "char \<Rightarrow> bool" where
  "kept_char c = class_member (of_char c)"

text \<open>\<open>s.replace(/[^0-9A-Za-z\<dots>-_' ]/gi, '')\<close>.\<close>

definition sanitize :: "string \<Rightarrow> string" where
  "sanitize s = filter kept_char s"

text \<open>\<open>x.replace(\<dots>)\<close> on a value of the model: only a string has the method.\<close>

definition sanitize_value :: "json \<Rightarrow> error + string" where
  "sanitize_value v = (case v of JStr s \<Rightarrow> Inr (sanitize s) | _ \<Rightarrow> Inl TypeError)"

subsection \<open>Sample phrases\<close>

text \<open>
  The regular expression \<open>/{(.*?)}/g\<close>.  \<open>match_body s\<close> matches \<open>(.*?)}\<close> at the
  start of \<open>s\<close>: the group is the text up to the first closing brace, and no line
  terminator may come before that brace.  \<open>re_exec s\<close> is a call of \<open>re.exec\<close> with
  \<open>s\<close> the part of the phrase from \<open>lastIndex\<close> on: the text before the first match,
  the group of the match, and the text after the match.
\<close>

definition line_terminator :: "char \<Rightarrow> bool" where
  "line_terminator c = (c = CHR 0x0A \<or> c = CHR 0x0D)"

fun match_body :: "string \<Rightarrow> (string \<times> string) option" where
  "match_body [] = None"
| "match_body (c # cs) =
     (if c = CHR ''}'' then Some ([], cs)
      else if line_terminator c then None
      else map_option (\<lambda>(n, r). (c # n, r)) (match_body cs))"

fun re_exec :: "string \<Rightarrow> (string \<times> string \<times> string) option" where
  "re_exec [] = None"
| "re_exec (c # cs) =
     (case (if c = CHR ''{'' then match_body cs else None) of
        Some (n, r) \<Rightarrow> Some ([], n, r)
      | None \<Rightarrow> map_option (\<lambda>(t, n, r). (c # t, n, r)) (re_exec cs))"

lemma match_body_length: "match_body s = Some (n, r) \<Longrightarrow> length r < length s"
  by (induction s arbitrary: n) (auto split: if_splits)

lemma re_exec_length: "re_exec s = Some (t, n, r) \<Longrightarrow> length r < length s"
proof (induction s arbitrary: t)
  case Nil
  then show ?case by simp
next
  case (Cons c cs)
  then show ?case
    by (fastforce split: option.splits if_splits dest: match_body_length)
qed

text \<open>The \<open>while (true)\<close> loop over the matches and the \<open>if (pos < phrase.length)\<close>
  after it; the argument is the phrase from \<open>pos\<close> on.  \<open>Literal\<close> is a push of a
  text object, \<open>Marker\<close> a push of an entity object.\<close>

datatype token = Literal string | Marker string

function scan_phrase :: "string \<Rightarrow> token list" where
  "scan_phrase s =
     (case re_exec s of
        None \<Rightarrow> (if 0 < length s then [Literal s] else [])
      | Some (t, entity, rest) \<Rightarrow>
          (if 0 < length t then [Literal t] else []) @ Marker entity # scan_phrase rest)"
  by pat_completeness auto
termination
  by (relation "measure length") (auto dest: re_exec_length)

declare scan_phrase.simps [simp del]

fun mapE :: "('a \<Rightarrow> error + 'b) \<Rightarrow> 'a list \<Rightarrow> error + 'b list" where
  "mapE f [] = Inr []"
| "mapE f (x # xs) = bindE (f x) (\<lambda>y. bindE (mapE f xs) (\<lambda>ys. Inr (y # ys)))"

definition text_object :: "string \<Rightarrow> json" where
  "text_object t = JObj [(''text'', JStr t), (''userDefined'', JBool False)]"

text \<open>The entity object of a marker: the exemplar text of the entity of that name, then
  alias and type hint from the parameters of the intent record.\<close>

definition entity_object :: "jovo_model \<Rightarrow> string \<Rightarrow> jobj \<Rightarrow> string \<Rightarrow> error + json" where
  "entity_object model intentKey dfIntentObj entity =
     (let dataEntityObj = [(''text'', JStr entity), (''userDefined'', JBool True)];
          d1 = (if hasEntities model intentKey
                then foldl (\<lambda>d (entityKey, entityData).
                        case entity_text entityData of
                          None \<Rightarrow> d
                        | Some t \<Rightarrow> if entityKey = entity \<and> truthy t
                                    then obj_set d ''text'' t else d)
                      dataEntityObj (getEntities model intentKey)
                else dataEntityObj);
          parameters = lodash_get (at0 (obj_get dfIntentObj ''responses'')) ''parameters''
      in if truthy parameters then
           (case parameters of
              JArr items \<Rightarrow>
                bindE (foldE (\<lambda>d item.
                         bindE (js_prop item ''name'') (\<lambda>name.
                           if strict_eq name (JStr entity)
                           then bindE (js_prop item ''dataType'') (\<lambda>dataType.
                                  Inr (obj_set (obj_set d ''alias'' name) ''meta'' dataType))
                           else Inr d)) d1 items)
                  (\<lambda>d. Inr (JObj d))
            | _ \<Rightarrow> Inl TypeError)
         else Inr (JObj d1))"

definition phrase_data :: "jovo_model \<Rightarrow> string \<Rightarrow> jobj \<Rightarrow> string \<Rightarrow> error + json list" where
  "phrase_data model intentKey dfIntentObj phrase =
     bindE (mapE (\<lambda>tok. case tok of
                     Literal t \<Rightarrow> Inr (text_object t)
                   | Marker entity \<Rightarrow> entity_object model intentKey dfIntentObj entity)
              (scan_phrase phrase))
       (\<lambda>d. Inr (if length d = 0 then [text_object phrase] else d))"

subsection \<open>fromJovoModel\<close>

text \<open>
  The state of a run: the model, which the exporter changes in place, the files pushed so
  far, and the number of identifiers drawn.  \<open>uuidv4\<close> is the sequence of identifiers
  the generator hands out in this run.
\<close>

record export_state =
  st_model :: jovo_model
  returnFiles :: "native_file list"
  next_uuid :: nat

definition quoted :: "string \<Rightarrow> string" where
  "quoted s = CHR 0x22 # s @ [CHR 0x22]"

text \<open>The body of the loop over the values of the matched entity type; the state is the
  entries built so far and the values as the loop leaves them in the model.\<close>

definition fromJovoModel_value ::
  "jobj \<Rightarrow> json list \<times> entity_type_value list \<Rightarrow> entity_type_value
     \<Rightarrow> error + json list \<times> entity_type_value list" where
  "fromJovoModel_value dfEntityObj st val =
     (case st of (entityValues, vals) \<Rightarrow>
       (case val of
          ValueString s \<Rightarrow> Inr (entityValues @ [JObj [(''value'', JStr s)]], vals @ [val])
        | ValueObject v syns \<Rightarrow>
            if \<not> truthy (obj_get dfEntityObj ''isEnum'') \<and> \<not> truthy (obj_get dfEntityObj ''isRegexp'')
            then
              bindE (sanitize_value v) (\<lambda>sv.
                case syns of
                  None \<Rightarrow>
                    Inr (entityValues @ [JObj [(''value'', v), (''synonyms'', JArr [JStr sv])]],
                         vals @ [val])
                | Some l \<Rightarrow>
                    bindE (mapE sanitize_value l) (\<lambda>l'.
                      Inr (entityValues @
                             [JObj [(''value'', v), (''synonyms'', JArr (JStr sv # map JStr l'))]],
                           vals @ [ValueObject v (Some (map JStr l'))])))
            else Inr (entityValues @ [JObj [(''value'', v)]], vals @ [val])))"

text \<open>The entity record of a custom entity type: the template, a fresh identifier, the
  name, and the vendor data of the type, which is a name or an object to merge.\<close>

definition entity_record :: "string \<Rightarrow> string \<Rightarrow> entity_type \<Rightarrow> error + jobj" where
  "entity_record uuid matchedEntityTypeName matchedEntityType =
     (let dfEntityObj = obj_set (obj_set DIALOGFLOW_LM_ENTITY ''id'' (JStr uuid))
                          ''name'' (JStr matchedEntityTypeName)
      in case type_dialogflow matchedEntityType of
           None \<Rightarrow> Inr dfEntityObj
         | Some (DialogflowName n) \<Rightarrow>
             Inr (if n \<noteq> [] then obj_set dfEntityObj ''name'' (JStr n) else dfEntityObj)
         | Some (DialogflowObject d) \<Rightarrow> merge_object dfEntityObj d)"

text \<open>The entries file of a custom entity type that has values; the loop over the values
  leaves the cleaned synonyms in the model.\<close>

definition fromJovoModel_entries ::
  "string \<Rightarrow> jobj \<Rightarrow> string \<Rightarrow> entity_type \<Rightarrow> export_state \<Rightarrow> error + export_state" where
  "fromJovoModel_entries locale dfEntityObj matchedEntityTypeName matchedEntityType st =
     (case type_values matchedEntityType of
        None \<Rightarrow> Inr st
      | Some [] \<Rightarrow> Inr st
      | Some (v # vs) \<Rightarrow>
          bindE (foldE (fromJovoModel_value dfEntityObj) ([], []) (v # vs))
            (\<lambda>(entityValues, vals).
               Inr (st\<lparr>st_model := (st_model st)\<lparr>entityTypes :=
                           map_option (\<lambda>m. obj_set m matchedEntityTypeName
                               (matchedEntityType\<lparr>type_values := Some vals\<rparr>))
                             (entityTypes (st_model st))\<rparr>,
                       returnFiles := returnFiles st @
                         [\<lparr>path = [''entities'', matchedEntityTypeName @ ''_entries_''
                                                   @ locale @ ''.json''],
                           content = JArr entityValues\<rparr>]\<rparr>)))"

text \<open>The branch for a custom entity type.\<close>

definition fromJovoModel_entityType ::
  "(nat \<Rightarrow> string) \<Rightarrow> string \<Rightarrow> export_state \<Rightarrow> string \<Rightarrow> error + export_state" where
  "fromJovoModel_entityType uuidv4 locale st matchedEntityTypeName =
     (if \<not> hasEntityTypes (st_model st) then
        Inl (Error (''Input type '' @ quoted matchedEntityTypeName
                      @ '' must be defined in entityTypes''))
      else
        (case getEntityTypeByName (st_model st) matchedEntityTypeName of
           None \<Rightarrow>
             if isJovoModelV3 (st_model st)
             then Inl (Error (''Input type '' @ quoted matchedEntityTypeName
                                @ '' must be defined in inputTypes''))
             else Inl (Error (''Entity type '' @ quoted matchedEntityTypeName
                                @ '' must be defined in entityTypes''))
         | Some matchedEntityType \<Rightarrow>
             bindE (entity_record (uuidv4 (next_uuid st)) matchedEntityTypeName
                      matchedEntityType) (\<lambda>dfEntityObj.
               fromJovoModel_entries locale dfEntityObj matchedEntityTypeName matchedEntityType
                 (st\<lparr>returnFiles := returnFiles st @
                        [\<lparr>path = [''entities'', matchedEntityTypeName @ ''.json''],
                          content = JObj dfEntityObj\<rparr>],
                      next_uuid := next_uuid st + 1\<rparr>))))"

text \<open>The data type an entity names: the \<open>dialogflow\<close> property of a descriptor, or
  the bare type name.\<close>

definition entity_dataType :: "string \<Rightarrow> string \<Rightarrow> intent_entity \<Rightarrow> error + string" where
  "entity_dataType intentKey entityKey entityData =
     (case entity_type entityData of
        None \<Rightarrow> Inl (Error (''Invalid entity type in intent '' @ quoted intentKey))
      | Some (TypeName t) \<Rightarrow>
          if t = [] then Inl (Error (''Invalid entity type in intent '' @ quoted intentKey))
          else Inr t
      | Some (TypeObject ob) \<Rightarrow>
          (case map_of ob ''dialogflow'' of
             None \<Rightarrow> Inl (Error (''Please add a dialogflow property for entity ''
                                   @ quoted entityKey))
           | Some d \<Rightarrow>
               if d = [] then Inl (Error (''Please add a dialogflow property for entity ''
                                            @ quoted entityKey))
               else Inr d))"

text \<open>The parameter record of an entity, with the data type the entity resolved to and
  the vendor data of the entity merged last.\<close>

definition parameter_record :: "string \<Rightarrow> intent_entity \<Rightarrow> string \<Rightarrow> error + jobj" where
  "parameter_record entityKey entityData dataType =
     (let parameterObj = [(''isList'', JBool False), (''name'', JStr entityKey),
                          (''value'', JStr (''$'' @ entityKey)), (''dataType'', JStr dataType)]
      in case entity_dialogflow entityData of
           None \<Rightarrow> Inr parameterObj
         | Some d \<Rightarrow> merge_object parameterObj d)"

text \<open>The body of the loop over the entities of an intent; the state carries the
  parameters pushed so far.\<close>

definition fromJovoModel_entity ::
  "(nat \<Rightarrow> string) \<Rightarrow> string \<Rightarrow> string \<Rightarrow> export_state \<times> json list
     \<Rightarrow> string \<times> intent_entity \<Rightarrow> error + export_state \<times> json list" where
  "fromJovoModel_entity uuidv4 locale intentKey sp e =
     (case sp of (st, parameters) \<Rightarrow> case e of (entityKey, entityData) \<Rightarrow>
       bindE (entity_dataType intentKey entityKey entityData) (\<lambda>dataType.
       bindE (if \<not> startsWith dataType BUILTIN_PREFIX
              then bindE (fromJovoModel_entityType uuidv4 locale st dataType)
                     (\<lambda>st'. Inr (st', ''@'' @ dataType))
              else Inr (st, dataType)) (\<lambda>(st', dataType').
       bindE (parameter_record entityKey entityData dataType')
         (\<lambda>parameterObj. Inr (st', parameters @ [JObj parameterObj])))))"

text \<open>The body of the loop over the phrases of an intent; the state is the number of
  identifiers drawn and the sample records built so far.\<close>

definition fromJovoModel_phrase ::
  "(nat \<Rightarrow> string) \<Rightarrow> string \<Rightarrow> jovo_model \<Rightarrow> string \<Rightarrow> jobj \<Rightarrow> nat \<times> json list
     \<Rightarrow> string \<Rightarrow> error + nat \<times> json list" where
  "fromJovoModel_phrase uuidv4 locale model intentKey dfIntentObj st phrase =
     (case st of (n, dialogFlowIntentUserSays) \<Rightarrow>
       bindE (phrase_data model intentKey dfIntentObj phrase) (\<lambda>d.
         Inr (n + 1, dialogFlowIntentUserSays @
                [JObj [(''id'', JStr (uuidv4 n)), (''data'', JArr d),
                       (''isTemplate'', JBool False), (''count'', JNum 0),
                       (''lang'', JStr locale)]])))"

text \<open>The intent record: identifier, name and fixed flags, the parameters of the
  entities if the intent has entities, and the vendor data of the intent merged last.\<close>

definition intent_record ::
  "(nat \<Rightarrow> string) \<Rightarrow> string \<Rightarrow> export_state \<Rightarrow> string \<Rightarrow> intent
     \<Rightarrow> error + export_state \<times> jobj" where
  "intent_record uuidv4 locale st intentKey intentData =
     (let dfIntentObj0 = [(''id'', JStr (uuidv4 (next_uuid st))), (''name'', JStr intentKey),
                          (''auto'', JBool True), (''webhookUsed'', JBool True)];
          st0 = st\<lparr>next_uuid := next_uuid st + 1\<rparr> in
      bindE (if hasEntities (st_model st0) intentKey
             then bindE (foldE (fromJovoModel_entity uuidv4 locale intentKey) (st0, [])
                           (getEntities (st_model st0) intentKey))
                    (\<lambda>(st1, parameters).
                       Inr (st1, obj_set dfIntentObj0 ''responses''
                                   (JArr [JObj [(''parameters'', JArr parameters)]])))
             else Inr (st0, dfIntentObj0)) (\<lambda>(st1, dfIntentObj1).
      bindE (case intent_dialogflow intentData of
               None \<Rightarrow> Inr dfIntentObj1
             | Some d \<Rightarrow> merge_object dfIntentObj1 d) (\<lambda>dfIntentObj.
        Inr (st1, dfIntentObj))))"

text \<open>The sample file of an intent: the loop over its phrases, and the push of the
  file if there is a phrase.\<close>

definition fromJovoModel_userSays ::
  "(nat \<Rightarrow> string) \<Rightarrow> string \<Rightarrow> string \<Rightarrow> jobj \<Rightarrow> string list \<Rightarrow> export_state
     \<Rightarrow> error + export_state" where
  "fromJovoModel_userSays uuidv4 locale intentKey dfIntentObj ps st =
     bindE (foldE (fromJovoModel_phrase uuidv4 locale (st_model st) intentKey dfIntentObj)
              (next_uuid st, []) ps)
       (\<lambda>(n, dialogFlowIntentUserSays).
          Inr (if 0 < length dialogFlowIntentUserSays
               then st\<lparr>returnFiles := returnFiles st @
                         [\<lparr>path = [''intents'', intentKey @ ''_usersays_'' @ locale @ ''.json''],
                           content = JArr dialogFlowIntentUserSays\<rparr>],
                       next_uuid := n\<rparr>
               else st\<lparr>next_uuid := n\<rparr>))"

text \<open>The body of the loop over the intents.\<close>

definition fromJovoModel_intent ::
  "(nat \<Rightarrow> string) \<Rightarrow> string \<Rightarrow> export_state \<Rightarrow> string \<times> intent \<Rightarrow> error + export_state" where
  "fromJovoModel_intent uuidv4 locale st i =
     (case i of (intentKey, intentData) \<Rightarrow>
       bindE (intent_record uuidv4 locale st intentKey intentData) (\<lambda>(st1, dfIntentObj).
         fromJovoModel_userSays uuidv4 locale intentKey dfIntentObj
           (case phrases intentData of None \<Rightarrow> [] | Some ps \<Rightarrow> ps)
           (st1\<lparr>returnFiles := returnFiles st1 @
                  [\<lparr>path = [''intents'', intentKey @ ''.json''],
                    content = JObj dfIntentObj\<rparr>]\<rparr>)))"

text \<open>The bodies of the two loops over the records of the model's \<open>dialogflow\<close>
  property: \<open>k\<close> is \<open>userSays\<close> or \<open>entries\<close>, \<open>dir\<close> and \<open>mid\<close> make the
  path.  The state is the files and the records as the loop leaves them in the model.\<close>

definition fromJovoModel_dialogflow ::
  "string \<Rightarrow> string \<Rightarrow> string \<Rightarrow> string \<Rightarrow> native_file list \<times> jobj list \<Rightarrow> jobj
     \<Rightarrow> native_file list \<times> jobj list" where
  "fromJovoModel_dialogflow dir k mid locale st ob =
     (case st of (files, obs) \<Rightarrow>
       if truthy (obj_get ob k)
       then (files @
               [\<lparr>path = [dir, to_string (obj_get ob ''name'') @ mid @ locale @ ''.json''],
                 content = obj_get ob k\<rparr>,
                \<lparr>path = [dir, to_string (obj_get ob ''name'') @ ''.json''],
                 content = JObj (obj_del ob k)\<rparr>],
             obs @ [obj_del ob k])
       else (files @
               [\<lparr>path = [dir, to_string (obj_get ob ''name'') @ ''.json''], content = JObj ob\<rparr>],
             obs @ [ob]))"

text \<open>One of the two loops, over the records under \<open>dialogflow.intents\<close> or
  \<open>dialogflow.entities\<close> if the model has them: the files with those of the records
  added, and the records as the loop leaves them.\<close>

definition fromJovoModel_records ::
  "string \<Rightarrow> string \<Rightarrow> string \<Rightarrow> string \<Rightarrow> native_file list \<Rightarrow> jobj list option
     \<Rightarrow> native_file list \<times> jobj list option" where
  "fromJovoModel_records dir k mid locale files records =
     (case records of
        None \<Rightarrow> (files, None)
      | Some l \<Rightarrow>
          (case foldl (fromJovoModel_dialogflow dir k mid locale) (files, []) l of
             (fs, l') \<Rightarrow> (fs, Some l')))"

text \<open>The end of an export, after the loop over the intents: the two loops over the
  model's \<open>dialogflow\<close> property, and the result.\<close>

definition fromJovoModel_vendor :: "string \<Rightarrow> export_state \<Rightarrow> native_file list \<times> jovo_model" where
  "fromJovoModel_vendor locale st =
     (case model_dialogflow (st_model st) of
        None \<Rightarrow> (returnFiles st, st_model st)
      | Some d \<Rightarrow>
          (case fromJovoModel_records ''intents'' ''userSays'' ''_usersays_'' locale
                  (returnFiles st) (dialogflow_intents d) of
             (files2, is) \<Rightarrow>
               (case fromJovoModel_records ''entities'' ''entries'' ''_entries_'' locale
                       files2 (dialogflow_entities d) of
                  (files3, es) \<Rightarrow>
                    (files3, (st_model st)\<lparr>model_dialogflow :=
                               Some (d\<lparr>dialogflow_intents := is,
                                       dialogflow_entities := es\<rparr>)\<rparr>))))"

definition fromJovoModel ::
  "(nat \<Rightarrow> string) \<Rightarrow> jovo_model \<Rightarrow> string \<Rightarrow> error + native_file list \<times> jovo_model" where
  "fromJovoModel uuidv4 model locale =
     bindE (foldE (fromJovoModel_intent uuidv4 locale)
              \<lparr>st_model = model, returnFiles = [], next_uuid = 0\<rparr> (getIntents model))
       (\<lambda>st. Inr (fromJovoModel_vendor locale st))"

section \<open>Notions the properties are stated with\<close>

text \<open>The header the importer gives every model.\<close>

definition header_ok :: "jovo_model \<Rightarrow> bool" where
  "header_ok m = (version m = Some ''4.0'' \<and> invocation m = Some [] \<and> intents m \<noteq> None
                   \<and> entityTypes m \<noteq> None)"

text \<open>
  The entity a parameter declares, in words: a parameter whose data type is a non-empty
  string declares an entity of the parameter's name; a type with the reserved prefix
  becomes a vendor-qualified descriptor, any other type loses its first character and
  becomes a bare type name.  Any other parameter declares nothing.
\<close>

definition declared_entity :: "json \<Rightarrow> (string \<times> intent_entity) option" where
  "declared_entity parameter =
     (case lodash_get parameter ''dataType'' of
        JStr s \<Rightarrow>
          if s = [] then None
          else Some (to_string (lodash_get parameter ''name''),
                 \<lparr>entity_type = Some (if startsWith s ''@sys.''
                                       then TypeObject [(''dialogflow'', s)]
                                       else TypeName (drop 1 s)),
                  entity_text = None, entity_dialogflow = None\<rparr>)
      | _ \<Rightarrow> None)"

text \<open>The parameters of a response that has a parameter array, and the declarations of
  a list of parameters taken in order, a later one replacing an earlier one of the same
  name.\<close>

definition response_parameters :: "json \<Rightarrow> json list" where
  "response_parameters response =
     (case lodash_get response ''parameters'' of JArr ps \<Rightarrow> ps | _ \<Rightarrow> [])"

definition entity_declarations :: "json list \<Rightarrow> (string \<times> intent_entity) list" where
  "entity_declarations ps =
     foldl (\<lambda>ents p. case declared_entity p of None \<Rightarrow> ents | Some (k, e) \<Rightarrow> obj_set ents k e)
       [] ps"

text \<open>A parameter the importer reads without raising: an object, or a number, string
  or boolean, whose data type is a string or is absent, \<open>null\<close>, \<open>false\<close> or zero.\<close>

definition plain_parameter :: "json \<Rightarrow> bool" where
  "plain_parameter parameter =
     (parameter \<noteq> JNull \<and> parameter \<noteq> JUndefined \<and>
      (case lodash_get parameter ''dataType'' of JStr _ \<Rightarrow> True | d \<Rightarrow> \<not> truthy d))"

definition plain_response :: "json \<Rightarrow> bool" where
  "plain_response response =
     ((case lodash_get response ''parameters'' of
         JArr ps \<Rightarrow> True | JUndefined \<Rightarrow> True | _ \<Rightarrow> False)
      \<and> list_all plain_parameter (response_parameters response))"

text \<open>The text a token stands for in the phrase.\<close>

fun render :: "token \<Rightarrow> string" where
  "render (Literal t) = t"
| "render (Marker entity) = ''{'' @ entity @ ''}''"

text \<open>
  The scan of a phrase, in words.  The name of a marker has no closing brace and no line
  terminator.  A marker begins at the start of a text that opens with a brace which is
  followed, before any line terminator, by a closing brace.  No marker begins inside a
  literal \<open>t\<close> that is followed by the text \<open>u\<close> when no marker begins at any character
  of \<open>t\<close> in \<open>t @ u\<close>.  A list of tokens is a scan when the names of its markers are
  such names, none of its literals is empty, no two literals are adjacent, and no marker
  begins inside a literal followed by the text of the tokens after it.
\<close>

definition marker_name :: "string \<Rightarrow> bool" where
  "marker_name n = list_all (\<lambda>c. c \<noteq> CHR ''}'' \<and> \<not> line_terminator c) n"

definition marker_start :: "string \<Rightarrow> bool" where
  "marker_start u =
     (case u of
        [] \<Rightarrow> False
      | c # cs \<Rightarrow> c = CHR ''{'' \<and> CHR ''}'' \<in> set cs
                  \<and> marker_name (takeWhile (\<lambda>c. c \<noteq> CHR ''}'') cs))"

fun marker_free :: "string \<Rightarrow> string \<Rightarrow> bool" where
  "marker_free [] u = True"
| "marker_free (c # t) u = (\<not> marker_start (c # t @ u) \<and> marker_free t u)"

fun scanned :: "token list \<Rightarrow> bool" where
  "scanned [] = True"
| "scanned (Marker n # toks) = (marker_name n \<and> scanned toks)"
| "scanned (Literal t # toks) =
     (t \<noteq> [] \<and> (case toks of Literal _ # _ \<Rightarrow> False | _ \<Rightarrow> True)
      \<and> marker_free t (concat (map render toks)) \<and> scanned toks)"

text \<open>A value whose synonym list, if it has one, is not empty and has no member that
  is strictly equal to the value; a model all of whose entity-type values are so.\<close>

definition synonyms_ok :: "entity_type_value \<Rightarrow> bool" where
  "synonyms_ok val =
     (case val of
        ValueString _ \<Rightarrow> True
      | ValueObject v syns \<Rightarrow>
          (case syns of None \<Rightarrow> True
           | Some l \<Rightarrow> l \<noteq> [] \<and> list_all (\<lambda>x. \<not> strict_eq x v) l))"

definition values_ok :: "entity_type \<Rightarrow> bool" where
  "values_ok t = list_all synonyms_ok (case type_values t of None \<Rightarrow> [] | Some vs \<Rightarrow> vs)"

definition types_ok :: "jovo_model \<Rightarrow> bool" where
  "types_ok m = list_all (\<lambda>p. values_ok (snd p)) (case entityTypes m of None \<Rightarrow> [] | Some l \<Rightarrow> l)"

text \<open>
  The characters the specification says the cleaning of a synonym keeps, in its words:
  the alphanumeric ones, the apostrophe and the accented Latin ones.
\<close>

definition spec_kept_char :: "char \<Rightarrow> bool" where
  "spec_kept_char c =
     (c \<in> set ''0123456789ABCDEFGHIJKLMNOPQRSTUVWXYZabcdefghijklmnopqrstuvwxyz''
      \<or> c = CHR 0x27 \<or> 192 \<le> (of_char c :: nat))"

text \<open>
  The cleaning of a string in the words of the amended claim: what is left of the string
  when every character is removed that is not a digit, a letter from \<open>A\<close> to \<open>Z\<close> or
  from \<open>a\<close> to \<open>z\<close>, a hyphen, an underscore, a space, an apostrophe or a code unit from
  192 to 255.  \<open>is_string\<close> tells a string from the other values.
\<close>

definition cleaned :: "string \<Rightarrow> string" where
  "cleaned s =
     filter (\<lambda>c. c \<in> set ''0123456789ABCDEFGHIJKLMNOPQRSTUVWXYZabcdefghijklmnopqrstuvwxyz-_ ''
                 \<or> c = CHR 0x27 \<or> 192 \<le> (of_char c :: nat)) s"

definition is_string :: "json \<Rightarrow> bool" where
  "is_string v = (case v of JStr _ \<Rightarrow> True | _ \<Rightarrow> False)"

text \<open>
  A record without its identifier, and a file without the identifiers of its record or,
  for a companion file, of its records.
\<close>

definition strip_id :: "json \<Rightarrow> json" where
  "strip_id v = (case v of JObj ob \<Rightarrow> JObj (obj_del ob ''id'') | _ \<Rightarrow> v)"

definition strip_ids :: "native_file \<Rightarrow> native_file" where
  "strip_ids f =
     f\<lparr>content := (case content f of JArr xs \<Rightarrow> JArr (map strip_id xs) | v \<Rightarrow> strip_id v)\<rparr>"

text \<open>Two values that are equal or both strings; two objects that have the same keys in
  the same order and the same values, but for strings under \<open>id\<close>; two states of an
  export that differ in identifiers only.\<close>

definition id_rel :: "json \<Rightarrow> json \<Rightarrow> bool" where
  "id_rel x y = (x = y \<or> (\<exists>a b. x = JStr a \<and> y = JStr b))"

definition field_rel :: "string \<times> json \<Rightarrow> string \<times> json \<Rightarrow> bool" where
  "field_rel p q =
     (fst p = fst q \<and> (if fst p = ''id'' then id_rel (snd p) (snd q) else snd p = snd q))"

definition obj_rel :: "jobj \<Rightarrow> jobj \<Rightarrow> bool" where
  "obj_rel a b = list_all2 field_rel a b"

definition st_rel :: "export_state \<Rightarrow> export_state \<Rightarrow> bool" where
  "st_rel s t = (st_model s = st_model t \<and> next_uuid s = next_uuid t
                  \<and> map strip_ids (returnFiles s) = map strip_ids (returnFiles t))"

text \<open>The outcome of an export with the identifiers of the files removed.\<close>

definition stripped ::
  "error + native_file list \<times> jovo_model \<Rightarrow> error + native_file list \<times> jovo_model" where
  "stripped r = (case r of Inl e \<Rightarrow> Inl e | Inr (fs, m) \<Rightarrow> Inr (map strip_ids fs, m))"

subsection \<open>Round trips\<close>

text \<open>An export followed by an import of the files it produced.\<close>

definition roundtrip :: "(nat \<Rightarrow> string) \<Rightarrow> jovo_model \<Rightarrow> string \<Rightarrow> error + jovo_model" where
  "roundtrip uuidv4 model locale =
     bindE (fromJovoModel uuidv4 model locale) (\<lambda>(files, model'). toJovoModel files locale)"

text \<open>
  The models a round trip gives back.  A value of an entity type is an object whose value
  is a string the cleaning leaves as it is, and whose synonyms, if it has any, are a
  non-empty list of such strings other than the value.
\<close>

definition clean_string :: "json \<Rightarrow> bool" where
  "clean_string v = (case v of JStr s \<Rightarrow> sanitize s = s | _ \<Rightarrow> False)"

definition round_trip_value :: "entity_type_value \<Rightarrow> bool" where
  "round_trip_value val =
     (case val of
        ValueString _ \<Rightarrow> False
      | ValueObject v syns \<Rightarrow>
          clean_string v \<and>
          (case syns of None \<Rightarrow> True
           | Some l \<Rightarrow> l \<noteq> [] \<and> list_all (\<lambda>x. clean_string x \<and> x \<noteq> v) l))"

text \<open>An entity type has no vendor data and a list of such values, and its name does not
  contain \<open>entries\<close>.\<close>

definition round_trip_type :: "string \<times> entity_type \<Rightarrow> bool" where
  "round_trip_type p =
     (\<not> str_includes (fst p) ''entries'' \<and> type_dialogflow (snd p) = None \<and>
      (case type_values (snd p) of None \<Rightarrow> False | Some vs \<Rightarrow> list_all round_trip_value vs))"

text \<open>An entity has a non-empty name, no exemplar text and no vendor data; its type is
  the name of a declared entity type that is as above, a name that is not empty and does
  not look like a built-in type with or without the prefix character, or it is a
  descriptor with nothing but a built-in \<open>dialogflow\<close> type.\<close>

definition round_trip_entity :: "(string \<times> entity_type) list \<Rightarrow> string \<times> intent_entity \<Rightarrow> bool" where
  "round_trip_entity ts p =
     (fst p \<noteq> [] \<and> entity_text (snd p) = None \<and> entity_dialogflow (snd p) = None \<and>
      (case entity_type (snd p) of
         None \<Rightarrow> False
       | Some (TypeName T) \<Rightarrow>
           T \<noteq> [] \<and> \<not> startsWith T ''@sys.'' \<and> \<not> startsWith T ''sys.'' \<and>
           (case map_of ts T of None \<Rightarrow> False | Some t \<Rightarrow> round_trip_type (T, t))
       | Some (TypeObject ob) \<Rightarrow>
           (case ob of
              [kd] \<Rightarrow> fst kd = ''dialogflow'' \<and> startsWith (snd kd) ''@sys.''
            | _ \<Rightarrow> False)))"

text \<open>The markers of a phrase name entities of the list.\<close>

definition markers_declared :: "string list \<Rightarrow> string \<Rightarrow> bool" where
  "markers_declared names phrase =
     list_all (\<lambda>tok. case tok of Literal _ \<Rightarrow> True | Marker entity \<Rightarrow> entity \<in> set names)
       (scan_phrase phrase)"

text \<open>An intent has no vendor data, a list of phrases, and either no entities, or a
  non-empty mapping of such entities; the markers of its phrases name entities of the
  intent; its name does not contain \<open>usersays\<close>.\<close>

definition round_trip_intent :: "(string \<times> entity_type) list \<Rightarrow> string \<times> intent \<Rightarrow> bool" where
  "round_trip_intent ts p =
     (\<not> str_includes (fst p) ''usersays'' \<and> intent_dialogflow (snd p) = None \<and>
      (case phrases (snd p) of
         None \<Rightarrow> False
       | Some ps \<Rightarrow>
           (case entities (snd p) of
              None \<Rightarrow> list_all (markers_declared []) ps
            | Some es \<Rightarrow>
                es \<noteq> [] \<and> distinct (map fst es) \<and> list_all (round_trip_entity ts) es \<and>
                list_all (markers_declared (map fst es)) ps)))"

text \<open>The entity types a model declares.\<close>

definition declared_types :: "jovo_model \<Rightarrow> (string \<times> entity_type) list" where
  "declared_types m = (case entityTypes m of None \<Rightarrow> [] | Some ts \<Rightarrow> ts)"

text \<open>A model has no vendor data and such intents, no two under the same name.\<close>

definition round_trip_model :: "jovo_model \<Rightarrow> bool" where
  "round_trip_model m =
     (model_dialogflow m = None \<and> distinct (map fst (getIntents m)) \<and>
      list_all (round_trip_intent (declared_types m)) (getIntents m))"

text \<open>The names of the custom entity types the entities of a model refer to.\<close>

definition custom_type :: "intent_entity \<Rightarrow> string option" where
  "custom_type e = (case entity_type e of Some (TypeName T) \<Rightarrow> Some T | _ \<Rightarrow> None)"

definition referenced_types :: "jovo_model \<Rightarrow> string list" where
  "referenced_types m =
     concat (map (\<lambda>p. case entities (snd p) of
                         None \<Rightarrow> []
                       | Some es \<Rightarrow> List.map_filter (\<lambda>q. custom_type (snd q)) es)
               (getIntents m))"

text \<open>
  The files of an export, but for the identifiers and the type hints of the segments: the
  record and the entries of a custom entity type, the record of an intent, and the sample
  file of an intent.
\<close>

datatype file_kind =
    TypeFile string
  | EntriesFile string "entity_type_value list"
  | IntentFile string intent
  | UserSaysFile string "string list"

definition entry_of :: "entity_type_value \<Rightarrow> json" where
  "entry_of val =
     (case val of
        ValueString s \<Rightarrow> JObj [(''value'', JStr s)]
      | ValueObject v syns \<Rightarrow>
          JObj [(''value'', v),
                (''synonyms'', JArr (v # (case syns of None \<Rightarrow> [] | Some l \<Rightarrow> l)))])"

definition data_type_of :: "intent_entity \<Rightarrow> string" where
  "data_type_of e =
     (case entity_type e of
        None \<Rightarrow> []
      | Some (TypeName T) \<Rightarrow> ''@'' @ T
      | Some (TypeObject ob) \<Rightarrow> (case map_of ob ''dialogflow'' of None \<Rightarrow> [] | Some d \<Rightarrow> d))"

definition parameter_of :: "string \<times> intent_entity \<Rightarrow> json" where
  "parameter_of p =
     JObj [(''isList'', JBool False), (''name'', JStr (fst p)),
           (''value'', JStr (''$'' @ fst p)), (''dataType'', JStr (data_type_of (snd p)))]"

definition intent_fields :: "string \<Rightarrow> intent \<Rightarrow> jobj" where
  "intent_fields K i =
     [(''name'', JStr K), (''auto'', JBool True), (''webhookUsed'', JBool True)] @
     (case entities i of
        None \<Rightarrow> []
      | Some es \<Rightarrow> [(''responses'', JArr [JObj [(''parameters'', JArr (map parameter_of es))]])])"

definition segment_ok :: "token \<Rightarrow> json \<Rightarrow> bool" where
  "segment_ok tok seg =
     (case tok of
        Literal t \<Rightarrow> seg = text_object t
      | Marker entity \<Rightarrow>
          (\<exists>ob. seg = JObj ob \<and> obj_get ob ''text'' = JStr entity
                \<and> obj_get ob ''alias'' = JStr entity))"

definition phrase_tokens :: "string \<Rightarrow> token list" where
  "phrase_tokens phrase = (if scan_phrase phrase = [] then [Literal phrase] else scan_phrase phrase)"

definition record_ok :: "string \<Rightarrow> json \<Rightarrow> bool" where
  "record_ok phrase r =
     (\<exists>ob d. r = JObj ob \<and> obj_get ob ''data'' = JArr d
             \<and> list_all2 segment_ok (phrase_tokens phrase) d)"

definition kind_path :: "string \<Rightarrow> file_kind \<Rightarrow> string list" where
  "kind_path locale k =
     (case k of
        TypeFile T \<Rightarrow> [''entities'', T @ ''.json'']
      | EntriesFile T vs \<Rightarrow> [''entities'', T @ ''_entries_'' @ locale @ ''.json'']
      | IntentFile K i \<Rightarrow> [''intents'', K @ ''.json'']
      | UserSaysFile K ps \<Rightarrow> [''intents'', K @ ''_usersays_'' @ locale @ ''.json''])"

definition file_matches :: "string \<Rightarrow> file_kind \<Rightarrow> native_file \<Rightarrow> bool" where
  "file_matches locale k f =
     (path f = kind_path locale k \<and>
      (case k of
         TypeFile T \<Rightarrow>
           (\<exists>x. content f = JObj (DIALOGFLOW_LM_ENTITY @ [(''id'', JStr x), (''name'', JStr T)]))
       | EntriesFile T vs \<Rightarrow> content f = JArr (map entry_of vs)
       | IntentFile K i \<Rightarrow> (\<exists>x. content f = JObj ((''id'', JStr x) # intent_fields K i))
       | UserSaysFile K ps \<Rightarrow> (\<exists>rs. content f = JArr rs \<and> list_all2 record_ok ps rs)))"

definition entity_kinds :: "(string \<times> entity_type) list \<Rightarrow> string \<times> intent_entity \<Rightarrow> file_kind list" where
  "entity_kinds ts p =
     (case custom_type (snd p) of
        None \<Rightarrow> []
      | Some T \<Rightarrow>
          (case map_of ts T of
             None \<Rightarrow> []
           | Some t \<Rightarrow>
               TypeFile T #
               (case type_values t of
                  None \<Rightarrow> [] | Some [] \<Rightarrow> [] | Some (v # vs) \<Rightarrow> [EntriesFile T (v # vs)])))"

definition intent_kinds :: "(string \<times> entity_type) list \<Rightarrow> string \<times> intent \<Rightarrow> file_kind list" where
  "intent_kinds ts p =
     concat (map (entity_kinds ts) (case entities (snd p) of None \<Rightarrow> [] | Some es \<Rightarrow> es)) @
     IntentFile (fst p) (snd p) #
     (case phrases (snd p) of
        None \<Rightarrow> [] | Some [] \<Rightarrow> [] | Some (ph # ps) \<Rightarrow> [UserSaysFile (fst p) (ph # ps)])"

text \<open>A state an export has reached from another by pushing files of the given kinds,
  with the model left as it was.\<close>

definition pushes :: "string \<Rightarrow> file_kind list \<Rightarrow> export_state \<Rightarrow> export_state \<Rightarrow> bool" where
  "pushes locale ks st st' =
     (st_model st' = st_model st \<and>
      (\<exists>fs. returnFiles st' = returnFiles st @ fs \<and> list_all2 (file_matches locale) ks fs))"

section \<open>Properties\<close>

subsection \<open>Results and loops\<close>

lemma bindE_Inr: "bindE m f = Inr y \<Longrightarrow> \<exists>x. m = Inr x \<and> f x = Inr y"
  by (cases m) (simp_all add: bindE_def)

lemma bindE_simps [simp]: "bindE (Inr x) f = f x" "bindE (Inl e) f = Inl e"
  by (simp_all add: bindE_def)

lemma foldE_invariant:
  assumes step: "\<And>s x s'. P s \<Longrightarrow> f s x = Inr s' \<Longrightarrow> P s'"
  shows "P s \<Longrightarrow> foldE f s xs = Inr s' \<Longrightarrow> P s'"
proof (induction xs arbitrary: s)
  case Nil
  then show ?case by simp
next
  case (Cons x xs)
  from Cons.prems(2) obtain s1 where s1: "f s x = Inr s1" and rest: "foldE f s1 xs = Inr s'"
    by (auto dest: bindE_Inr)
  from step [OF Cons.prems(1) s1] have "P s1" .
  from Cons.IH [OF this rest] show ?case .
qed

subsection \<open>The character class of the cleaning\<close>

lemma class_member_iff:
  "class_member n \<longleftrightarrow> (\<exists>a. in_class a \<and> canonicalize a = canonicalize n)"
proof -
  have "in_class a \<Longrightarrow> a < 256" for a by (auto simp: in_class_def)
  then show ?thesis by (auto simp: class_member_def list_ex_iff)
qed

lemma canonicalize_class:
  assumes "in_class a"
  shows "(48 \<le> canonicalize a \<and> canonicalize a \<le> 57)
         \<or> (65 \<le> canonicalize a \<and> canonicalize a \<le> 90)
         \<or> (192 \<le> canonicalize a \<and> canonicalize a \<le> 223)
         \<or> canonicalize a = 247 \<or> canonicalize a = 376 \<or> canonicalize a = 45
         \<or> canonicalize a = 95 \<or> canonicalize a = 39 \<or> canonicalize a = 32"
  using assms unfolding in_class_def
proof (elim disjE)
  assume "48 \<le> a \<and> a \<le> 57"
  then have "canonicalize a = a" by (simp add: canonicalize_def to_upper_def Let_def)
  with \<open>48 \<le> a \<and> a \<le> 57\<close> show ?thesis by simp
next
  assume "65 \<le> a \<and> a \<le> 90"
  then have "canonicalize a = a" by (simp add: canonicalize_def to_upper_def Let_def)
  with \<open>65 \<le> a \<and> a \<le> 90\<close> show ?thesis by simp
next
  assume r: "97 \<le> a \<and> a \<le> 122"
  then have "canonicalize a = a - 32" by (simp add: canonicalize_def to_upper_def Let_def)
  moreover from r have "65 \<le> a - 32 \<and> a - 32 \<le> 90" by arith
  ultimately show ?thesis by simp
next
  assume r: "192 \<le> a \<and> a \<le> 255"
  show ?thesis
  proof (cases "a \<le> 223")
    case True
    with r have "canonicalize a = a" by (simp add: canonicalize_def to_upper_def Let_def)
    with r True show ?thesis by simp
  next
    case False
    show ?thesis
    proof (cases "a = 247 \<or> a = 255")
      case True
      then show ?thesis by (auto simp: canonicalize_def to_upper_def Let_def)
    next
      case n: False
      with r False have u: "to_upper a = a - 32" by (simp add: to_upper_def)
      from r False have b: "192 \<le> a - 32 \<and> a - 32 \<le> 223" by arith
      with u have "canonicalize a = a - 32" by (simp add: canonicalize_def Let_def)
      with b show ?thesis by simp
    qed
  qed
qed (simp_all add: canonicalize_def to_upper_def Let_def)

lemma canonicalize_kept:
  assumes n: "n < 256 \<or> n = 376"
    and c: "(48 \<le> canonicalize n \<and> canonicalize n \<le> 57)
         \<or> (65 \<le> canonicalize n \<and> canonicalize n \<le> 90)
         \<or> (192 \<le> canonicalize n \<and> canonicalize n \<le> 223)
         \<or> canonicalize n = 247 \<or> canonicalize n = 376 \<or> canonicalize n = 45
         \<or> canonicalize n = 95 \<or> canonicalize n = 39 \<or> canonicalize n = 32"
  shows "in_class n \<or> n = 376"
proof (cases "(97 \<le> n \<and> n \<le> 122) \<or> (224 \<le> n \<and> n \<le> 255) \<or> n = 376")
  case True
  then show ?thesis by (auto simp: in_class_def)
next
  case False
  show ?thesis
  proof (cases "n = 181")
    case True
    then have "canonicalize n = 924" by (simp add: canonicalize_def to_upper_def Let_def)
    with c show ?thesis by simp
  next
    case n181: False
    with False have "to_upper n = n" by (simp add: to_upper_def) arith
    then have "canonicalize n = n" by (simp add: canonicalize_def Let_def)
    with c show ?thesis unfolding in_class_def by arith
  qed
qed

lemma class_member_units:
  assumes "n < 256 \<or> n = 376"
  shows "class_member n \<longleftrightarrow> in_class n \<or> n = 376"
proof
  assume "class_member n"
  then obtain a where a: "in_class a" and c: "canonicalize a = canonicalize n"
    unfolding class_member_iff by blast
  from canonicalize_class [OF a] show "in_class n \<or> n = 376"
    unfolding c by (rule canonicalize_kept [OF assms])
next
  assume "in_class n \<or> n = 376"
  then show "class_member n"
  proof
    assume "in_class n"
    then show ?thesis unfolding class_member_iff by blast
  next
    assume n: "n = 376"
    have "in_class 255" by (simp add: in_class_def)
    moreover have "canonicalize 255 = canonicalize 376"
      by (simp add: canonicalize_def to_upper_def)
    ultimately show ?thesis unfolding class_member_iff n by blast
  qed
qed

lemma kept_char_class [code]:
  "kept_char c \<longleftrightarrow>
     c \<in> set ''0123456789ABCDEFGHIJKLMNOPQRSTUVWXYZabcdefghijklmnopqrstuvwxyz-_ ''
     \<or> c = CHR 0x27 \<or> 192 \<le> (of_char c :: nat)"
proof -
  have b: "(of_char c :: nat) < 256" by (cases c) simp
  then have "(of_char c :: nat) \<noteq> 376" by linarith
  with b have "kept_char c \<longleftrightarrow> in_class (of_char c)"
    by (simp add: kept_char_def class_member_units)
  also have "\<dots> \<longleftrightarrow>
     c \<in> set ''0123456789ABCDEFGHIJKLMNOPQRSTUVWXYZabcdefghijklmnopqrstuvwxyz-_ ''
     \<or> c = CHR 0x27 \<or> 192 \<le> (of_char c :: nat)"
    by (cases c) (simp add: in_class_def)
  finally show ?thesis .
qed

subsection \<open>The header of an imported model\<close>

lemma toJovoModel_intent_header:
  "header_ok m \<Longrightarrow> toJovoModel_intent fs l m f = Inr m' \<Longrightarrow> header_ok m'"
  unfolding toJovoModel_intent_def Let_def
  by (auto simp: header_ok_def set_dialogflow_intents_def dest!: bindE_Inr
           split: list.splits if_splits option.splits)

lemma toJovoModel_entity_header:
  "header_ok m \<Longrightarrow> toJovoModel_entity fs l m f = Inr m' \<Longrightarrow> header_ok m'"
  unfolding toJovoModel_entity_def Let_def
  by (auto simp: header_ok_def dest!: bindE_Inr split: list.splits if_splits option.splits)

text \<open>
  C10.  Whatever the file set and the locale, a model the importer returns has version
  \<open>4.0\<close>, the empty invocation string, and an \<open>intents\<close> and an \<open>entityTypes\<close>
  mapping, which may be empty.
\<close>

theorem toJovoModel_header:
  "toJovoModel inputData locale = Inr m \<Longrightarrow>
     version m = Some ''4.0'' \<and> invocation m = Some [] \<and> intents m \<noteq> None
       \<and> entityTypes m \<noteq> None"
proof -
  assume a: "toJovoModel inputData locale = Inr m"
  let ?m0 = "\<lparr>version = Some ''4.0'', invocation = Some [], intents = Some [],
               entityTypes = Some [], model_dialogflow = None\<rparr>"
  let ?is = "filter (\<lambda>file. length (path file) \<noteq> 0 \<and> hd (path file) = ''intents'') inputData"
  let ?es = "filter (\<lambda>file. length (path file) \<noteq> 0 \<and> hd (path file) = ''entities'') inputData"
  have h0: "header_ok ?m0" by (simp add: header_ok_def)
  from a obtain m1 where
    m1: "foldE (toJovoModel_intent ?is locale) ?m0 ?is = Inr m1"
    and m2: "foldE (toJovoModel_entity ?es locale) m1 ?es = Inr m"
    unfolding toJovoModel_def Let_def by (auto dest!: bindE_Inr)
  have "header_ok m1"
    using foldE_invariant [where P = header_ok, OF _ h0 m1] toJovoModel_intent_header by blast
  then have "header_ok m"
    using foldE_invariant [where P = header_ok, OF _ _ m2] toJovoModel_entity_header by blast
  then show ?thesis by (simp add: header_ok_def)
qed

theorem toJovoModel_header_witness:
  "toJovoModel
     [\<lparr>path = [''intents'', ''Hello.json''],
       content = JObj [(''name'', JStr ''Hello''), (''auto'', JBool True),
                       (''webhookUsed'', JBool False)]\<rparr>,
      \<lparr>path = [''intents'', ''Hello_usersays_en-US.json''],
       content = JArr [JObj [(''data'', JArr [JObj [(''text'', JStr ''hello'')]])]]\<rparr>] ''en-US''
   = Inr \<lparr>version = Some ''4.0'', invocation = Some [],
          intents = Some [(''Hello'', \<lparr>phrases = Some [''hello''], entities = None,
                                         intent_dialogflow = None\<rparr>)],
          entityTypes = Some [], model_dialogflow = None\<rparr>
   \<and> version \<lparr>version = Some ''4.0'', invocation = Some [],
          intents = Some [(''Hello'', \<lparr>phrases = Some [''hello''], entities = None,
                                         intent_dialogflow = None\<rparr>)],
          entityTypes = Some [], model_dialogflow = None\<rparr> = Some ''4.0''"
proof -
  have e: "toJovoModel
     [\<lparr>path = [''intents'', ''Hello.json''],
       content = JObj [(''name'', JStr ''Hello''), (''auto'', JBool True),
                       (''webhookUsed'', JBool False)]\<rparr>,
      \<lparr>path = [''intents'', ''Hello_usersays_en-US.json''],
       content = JArr [JObj [(''data'', JArr [JObj [(''text'', JStr ''hello'')]])]]\<rparr>] ''en-US''
   = Inr \<lparr>version = Some ''4.0'', invocation = Some [],
          intents = Some [(''Hello'', \<lparr>phrases = Some [''hello''], entities = None,
                                         intent_dialogflow = None\<rparr>)],
          entityTypes = Some [], model_dialogflow = None\<rparr>"
    by code_simp
  from toJovoModel_header [OF e] e show ?thesis by blast
qed

subsection \<open>Fallback and welcome intents\<close>

text \<open>
  C4.  A native intent flagged as fallback, or triggered by the welcome event, is to become
  a member of the list \<open>dialogflow.intents\<close> of the model, each of them when there are
  several.  The importer run on a welcome intent followed by a fallback intent returns a
  list that holds the fallback intent alone: the fallback branch stores a fresh
  one-element list where the welcome branch appends to the list that is there.
\<close>

theorem toJovoModel_fallback_drops_welcome:
  "toJovoModel
     [\<lparr>path = [''intents'', ''Default Welcome Intent.json''],
       content = JObj [(''name'', JStr ''Default Welcome Intent''), (''auto'', JBool True),
                       (''events'', JArr [JObj [(''name'', JStr ''WELCOME'')]])]\<rparr>,
      \<lparr>path = [''intents'', ''Fallback.json''],
       content = JObj [(''name'', JStr ''Fallback''), (''auto'', JBool True),
                       (''fallbackIntent'', JBool True)]\<rparr>] ''en''
   = Inr \<lparr>version = Some ''4.0'', invocation = Some [], intents = Some [],
          entityTypes = Some [],
          model_dialogflow = Some \<lparr>dialogflow_intents =
              Some [[(''fallbackIntent'', JBool True), (''name'', JStr ''Fallback'')]],
            dialogflow_entities = None\<rparr>\<rparr>"
  by code_simp

subsection \<open>Failures of the importer\<close>

text \<open>
  C2.  The importer is never to raise: an absent optional field is to be treated as empty.
  The native schema declares the \<open>synonyms\<close> of an entry optional, and the importer
  reads the parameters of a response with an empty default, but it iterates over the
  synonyms of an entry as they are.  On an entries file whose entry has no synonyms, for
  an entity that is neither an enumeration nor a regular expression, it raises a
  \<open>TypeError\<close>.
\<close>

theorem toJovoModel_raises_without_synonyms:
  "toJovoModel
     [\<lparr>path = [''entities'', ''color.json''],
       content = JObj [(''id'', JStr ''1''), (''name'', JStr ''color''),
                       (''isOverridable'', JBool True), (''isEnum'', JBool False),
                       (''automatedExpansion'', JBool False)]\<rparr>,
      \<lparr>path = [''entities'', ''color_entries_en.json''],
       content = JArr [JObj [(''value'', JStr ''red'')]]\<rparr>] ''en''
   = Inl TypeError"
  by code_simp

subsection \<open>Unresolved entity types\<close>

text \<open>
  C3.  An entity of a custom type that does not resolve makes the exporter raise an error
  that names the type, in the terms of the model's schema version: \<open>inputTypes\<close> for a
  legacy model, \<open>entityTypes\<close> for a current one.  When the model declares no entity
  types at all the message is the same for both versions, and tells the author of a
  legacy model to define the type in \<open>entityTypes\<close>; the check for a name that is
  missing from the mapping does tell the versions apart.
\<close>

theorem fromJovoModel_legacy_without_types:
  "fromJovoModel uuidv4
     \<lparr>version = None, invocation = Some ''app'',
      intents = Some [(''Book'',
        \<lparr>phrases = Some [],
         entities = Some [(''city'', \<lparr>entity_type = Some (TypeName ''location''),
                                       entity_text = None, entity_dialogflow = None\<rparr>)],
         intent_dialogflow = None\<rparr>)],
      entityTypes = None, model_dialogflow = None\<rparr> locale
   = Inl (Error (''Input type '' @ quoted ''location'' @ '' must be defined in entityTypes''))
   \<and> fromJovoModel uuidv4
     \<lparr>version = Some ''4.0'', invocation = Some ''app'',
      intents = Some [(''Book'',
        \<lparr>phrases = Some [],
         entities = Some [(''city'', \<lparr>entity_type = Some (TypeName ''location''),
                                       entity_text = None, entity_dialogflow = None\<rparr>)],
         intent_dialogflow = None\<rparr>)],
      entityTypes = None, model_dialogflow = None\<rparr> locale
   = Inl (Error (''Input type '' @ quoted ''location'' @ '' must be defined in entityTypes''))"
  by (simp add: fromJovoModel_def fromJovoModel_intent_def intent_record_def
        fromJovoModel_entity_def entity_dataType_def fromJovoModel_entityType_def
        getIntents_def hasEntities_def getEntities_def hasEntityTypes_def startsWith_def
        BUILTIN_PREFIX_def)

subsection \<open>What an export leaves in the model\<close>

text \<open>
  C7.  An export is to change nothing in the intents, entities and entity types of the
  model it is given, the synonym lists of the entity-type values included.  The exporter
  builds the seeded copy of a value in a new array, but cleans the declared synonyms in
  place: after the export of a model whose entity type \<open>city\<close> has the value
  \<open>nyc\<close> with the synonym \<open>N.Y.C.\<close>, the model holds the synonym \<open>NYC\<close>.
\<close>

theorem fromJovoModel_rewrites_synonyms:
  "(case fromJovoModel uuidv4
      \<lparr>version = Some ''4.0'', invocation = Some ''app'',
       intents = Some [(''Book'',
         \<lparr>phrases = Some [],
          entities = Some [(''to'', \<lparr>entity_type = Some (TypeName ''city''),
                                      entity_text = None, entity_dialogflow = None\<rparr>)],
          intent_dialogflow = None\<rparr>)],
       entityTypes = Some [(''city'',
         \<lparr>type_values = Some [ValueObject (JStr ''nyc'') (Some [JStr ''N.Y.C.''])],
          type_dialogflow = None\<rparr>)],
       model_dialogflow = None\<rparr> ''en'' of
      Inl e \<Rightarrow> False
    | Inr (files, model') \<Rightarrow>
        entityTypes model' = Some [(''city'',
          \<lparr>type_values = Some [ValueObject (JStr ''nyc'') (Some [JStr ''NYC''])],
           type_dialogflow = None\<rparr>)])"
  by (simp add: fromJovoModel_def fromJovoModel_vendor_def fromJovoModel_intent_def
        intent_record_def
        fromJovoModel_userSays_def fromJovoModel_entity_def entity_dataType_def
        parameter_record_def
        fromJovoModel_entityType_def entity_record_def fromJovoModel_entries_def
        fromJovoModel_value_def getIntents_def hasEntities_def
        getEntities_def hasEntityTypes_def getEntityTypeByName_def startsWith_def
        BUILTIN_PREFIX_def DIALOGFLOW_LM_ENTITY_def obj_get_def truthy_def sanitize_value_def
        sanitize_def kept_char_class)

subsection \<open>Entity declarations\<close>

lemma js_prop_plain: "p \<noteq> JNull \<Longrightarrow> p \<noteq> JUndefined \<Longrightarrow> js_prop p k = Inr (lodash_get p k)"
  by (cases p) (simp_all add: js_prop_def lodash_get_def)

lemma toJovoModel_parameter_declared:
  "plain_parameter p \<Longrightarrow>
   toJovoModel_parameter ents p =
     Inr (case declared_entity p of None \<Rightarrow> ents | Some (k, e) \<Rightarrow> obj_set ents k e)"
  unfolding toJovoModel_parameter_def plain_parameter_def declared_entity_def
  by (auto simp: js_prop_plain truthy_def split: json.splits)

lemma foldE_parameters:
  "list_all plain_parameter ps \<Longrightarrow>
   foldE toJovoModel_parameter ents ps =
     Inr (foldl (\<lambda>ents p. case declared_entity p of None \<Rightarrow> ents
                           | Some (k, e) \<Rightarrow> obj_set ents k e) ents ps)"
  by (induction ps arbitrary: ents) (simp_all add: toJovoModel_parameter_declared)

lemma toJovoModel_response_declared:
  "plain_response r \<Longrightarrow>
   toJovoModel_response ents r =
     Inr (foldl (\<lambda>ents p. case declared_entity p of None \<Rightarrow> ents
                           | Some (k, e) \<Rightarrow> obj_set ents k e) ents (response_parameters r))"
  unfolding toJovoModel_response_def plain_response_def response_parameters_def
  by (auto simp: iterate_def foldE_parameters split: json.splits)

lemma foldE_responses:
  "list_all plain_response rs \<Longrightarrow>
   foldE toJovoModel_response ents rs =
     Inr (foldl (\<lambda>ents p. case declared_entity p of None \<Rightarrow> ents
                           | Some (k, e) \<Rightarrow> obj_set ents k e) ents
            (concat (map response_parameters rs)))"
  by (induction rs arbitrary: ents) (simp_all add: toJovoModel_response_declared)

text \<open>
  C8, as stated: only the parameters of the first response declare entities.  The importer
  run on an intent whose first response has no parameter and whose second response has the
  parameter \<open>n\<close> of type \<open>@sys.number\<close> returns an intent with the entity \<open>n\<close>.
\<close>

theorem toJovoModel_second_response_counterexample:
  "toJovoModel
     [\<lparr>path = [''intents'', ''Count.json''],
       content = JObj [(''name'', JStr ''Count''), (''auto'', JBool True),
                       (''webhookUsed'', JBool False),
                       (''responses'', JArr
                          [JObj [(''parameters'', JArr [])],
                           JObj [(''parameters'', JArr
                              [JObj [(''name'', JStr ''n''),
                                     (''dataType'', JStr ''@sys.number'')]])]])]\<rparr>] ''en''
   = Inr \<lparr>version = Some ''4.0'', invocation = Some [],
          intents = Some [(''Count'',
            \<lparr>phrases = Some [],
             entities = Some [(''n'',
               \<lparr>entity_type = Some (TypeObject [(''dialogflow'', ''@sys.number'')]),
                entity_text = None, entity_dialogflow = None\<rparr>)],
             intent_dialogflow = None\<rparr>)],
          entityTypes = Some [], model_dialogflow = None\<rparr>"
  by code_simp

text \<open>
  C8, amended.  The importer builds the entity declarations of an intent from the parameter
  lists of all its responses, taken in order: when every response has a parameter array or
  none, and every parameter is a value whose data type is a string or is absent, the
  declarations are those of the parameters of all responses, a later parameter replacing an
  earlier one of the same name.  A data type with the prefix \<open>@sys.\<close> becomes the
  descriptor \<open>{dialogflow: dataType}\<close>, any other non-empty data type loses its first
  character and becomes a bare type name, and a parameter with an empty or absent data
  type declares nothing.
\<close>

theorem toJovoModel_entities_all_responses:
  "lodash_get dialogFlowIntent ''responses'' = JArr rs \<Longrightarrow> list_all plain_response rs \<Longrightarrow>
   toJovoModel_entities dialogFlowIntent =
     Inr (entity_declarations (concat (map response_parameters rs)))"
  by (simp add: toJovoModel_entities_def truthy_def iterate_def foldE_responses
        entity_declarations_def)

theorem toJovoModel_entities_all_responses_witness:
  "toJovoModel_entities
     (JObj [(''name'', JStr ''Book''),
            (''responses'', JArr
               [JObj [(''parameters'', JArr
                  [JObj [(''name'', JStr ''city''), (''dataType'', JStr ''@location'')],
                   JObj [(''name'', JStr ''note'')]])],
                JObj [(''parameters'', JArr
                  [JObj [(''name'', JStr ''n''), (''dataType'', JStr ''@sys.number'')]])]])])
   = Inr [(''city'', \<lparr>entity_type = Some (TypeName ''location''), entity_text = None,
                       entity_dialogflow = None\<rparr>),
          (''n'', \<lparr>entity_type = Some (TypeObject [(''dialogflow'', ''@sys.number'')]),
                    entity_text = None, entity_dialogflow = None\<rparr>)]"
proof -
  let ?rs = "[JObj [(''parameters'', JArr
                  [JObj [(''name'', JStr ''city''), (''dataType'', JStr ''@location'')],
                   JObj [(''name'', JStr ''note'')]])],
              JObj [(''parameters'', JArr
                  [JObj [(''name'', JStr ''n''), (''dataType'', JStr ''@sys.number'')]])]]"
  have r: "lodash_get (JObj [(''name'', JStr ''Book''), (''responses'', JArr ?rs)]) ''responses''
             = JArr ?rs"
    by (simp add: lodash_get_def obj_get_def)
  have p: "list_all plain_response ?rs"
    by (simp add: plain_response_def plain_parameter_def response_parameters_def lodash_get_def
          obj_get_def truthy_def)
  have d: "entity_declarations (concat (map response_parameters ?rs))
     = [(''city'', \<lparr>entity_type = Some (TypeName ''location''), entity_text = None,
                       entity_dialogflow = None\<rparr>),
        (''n'', \<lparr>entity_type = Some (TypeObject [(''dialogflow'', ''@sys.number'')]),
                    entity_text = None, entity_dialogflow = None\<rparr>)]"
    by (simp add: entity_declarations_def response_parameters_def declared_entity_def
          lodash_get_def obj_get_def startsWith_def)
  from toJovoModel_entities_all_responses [OF r p] d show ?thesis by simp
qed

subsection \<open>Tokens of a sample phrase\<close>

lemma match_body_decomp: "match_body s = Some (n, r) \<Longrightarrow> s = n @ ''}'' @ r"
  by (induction s arbitrary: n) (auto split: if_splits)

lemma re_exec_decomp: "re_exec s = Some (t, n, r) \<Longrightarrow> s = t @ ''{'' @ n @ ''}'' @ r"
proof (induction s arbitrary: t)
  case Nil
  then show ?case by simp
next
  case (Cons c cs)
  then show ?case
    by (fastforce split: option.splits if_splits dest: match_body_decomp)
qed

lemma scan_phrase_render: "concat (map render (scan_phrase s)) = s"
proof (induction s rule: scan_phrase.induct)
  case (1 s)
  show ?case
  proof (cases "re_exec s")
    case None
    then show ?thesis by (simp add: scan_phrase.simps [of s])
  next
    case (Some a)
    then obtain t n r where a: "re_exec s = Some (t, n, r)" by (cases a) auto
    from "1" [OF a] have ih: "concat (map render (scan_phrase r)) = r" by simp
    have sp: "scan_phrase s
                = (if 0 < length t then [Literal t] else []) @ Marker n # scan_phrase r"
      using a by (simp add: scan_phrase.simps [of s])
    have "concat (map render (scan_phrase s)) = t @ ''{'' @ n @ ''}'' @ r"
      unfolding sp using ih by simp
    with re_exec_decomp [OF a] show ?thesis by simp
  qed
qed

lemma scan_phrase_no_empty: "Literal [] \<notin> set (scan_phrase s)"
proof (induction s rule: scan_phrase.induct)
  case (1 s)
  show ?case
  proof (cases "re_exec s")
    case None
    then show ?thesis by (simp add: scan_phrase.simps [of s])
  next
    case (Some a)
    then obtain t n r where a: "re_exec s = Some (t, n, r)" by (cases a) auto
    from "1" [OF a] have "Literal [] \<notin> set (scan_phrase r)" by simp
    with a show ?thesis
      by (simp add: scan_phrase.simps [of s])
  qed
qed

lemma phrase_data_no_marker:
  "re_exec s = None \<Longrightarrow> phrase_data model intentKey dfIntentObj s = Inr [text_object s]"
  by (simp add: phrase_data_def scan_phrase.simps [of s])

lemma match_body_Some:
  "match_body cs = Some (n, r) \<Longrightarrow> cs = n @ CHR ''}'' # r \<and> marker_name n"
  by (induction cs arbitrary: n) (auto simp: marker_name_def split: if_splits)

lemma match_body_marker:
  "marker_name n \<Longrightarrow> match_body (n @ CHR ''}'' # r) = Some (n, r)"
  by (induction n) (auto simp: marker_name_def)

lemma marker_start_match: "marker_start (CHR ''{'' # cs) \<longleftrightarrow> match_body cs \<noteq> None"
proof (induction cs)
  case Nil
  then show ?case by (simp add: marker_start_def)
next
  case (Cons c cs)
  then show ?case
    by (auto simp: marker_start_def marker_name_def line_terminator_def)
qed

lemma marker_start_brace: "marker_start (c # cs) \<Longrightarrow> c = CHR ''{''"
  by (simp add: marker_start_def)

lemma re_exec_free:
  "marker_free t u \<Longrightarrow> re_exec (t @ u) = map_option (\<lambda>(t', n, r). (t @ t', n, r)) (re_exec u)"
proof (induction t)
  case Nil
  show ?case by (simp add: option.map_ident case_prod_eta split_def)
next
  case (Cons c t)
  from Cons.prems have ns: "\<not> marker_start (c # t @ u)" and mf: "marker_free t u" by simp_all
  have "(if c = CHR ''{'' then match_body (t @ u) else None) = None"
  proof (cases "c = CHR ''{''")
    case True
    with ns have "match_body (t @ u) = None"
      by (cases "match_body (t @ u)") (simp_all add: marker_start_match)
    with True show ?thesis by simp
  next
    case False
    then show ?thesis by simp
  qed
  with Cons.IH [OF mf] show ?case
    by (simp add: option.map_comp comp_def split_def)
qed

lemma re_exec_None: "re_exec s = None \<longleftrightarrow> marker_free s []"
proof (induction s)
  case Nil
  show ?case by simp
next
  case (Cons c s)
  show ?case
  proof (cases "c = CHR ''{''")
    case True
    with Cons marker_start_match [of s] show ?thesis
      by (cases "match_body s") auto
  next
    case False
    with Cons marker_start_brace [of c s] show ?thesis by auto
  qed
qed

lemma re_exec_Some:
  "re_exec s = Some (t, n, r) \<Longrightarrow>
   s = t @ CHR ''{'' # n @ CHR ''}'' # r \<and> marker_name n \<and> marker_free t (CHR ''{'' # n @ CHR ''}'' # r)"
proof (induction s arbitrary: t)
  case Nil
  then show ?case by simp
next
  case (Cons c s)
  show ?case
  proof (cases "if c = CHR ''{'' then match_body s else None")
    case None
    with Cons.prems obtain t' where e: "re_exec s = Some (t', n, r)" and t: "t = c # t'"
      by (auto split: option.splits)
    from Cons.IH [OF e] have ih: "s = t' @ CHR ''{'' # n @ CHR ''}'' # r" "marker_name n"
      "marker_free t' (CHR ''{'' # n @ CHR ''}'' # r)" by simp_all
    from None have "\<not> marker_start (c # s)"
      using marker_start_match [of s] marker_start_brace [of c s] by (auto split: if_splits)
    with ih t show ?thesis by simp
  next
    case (Some a)
    then obtain n' r' where a: "a = (n', r')" by (cases a)
    with Some Cons.prems have "t = []" "n' = n" "r' = r" by (auto split: if_splits)
    with Some a have c: "c = CHR ''{''" and m: "match_body s = Some (n, r)"
      by (auto split: if_splits)
    from match_body_Some [OF m] c \<open>t = []\<close> show ?thesis by simp
  qed
qed

lemma re_exec_marker:
  "marker_name n \<Longrightarrow> re_exec (CHR ''{'' # n @ CHR ''}'' # r) = Some ([], n, r)"
  by (simp add: match_body_marker)

lemma scan_phrase_scanned: "scanned (scan_phrase s)"
proof (induction s rule: scan_phrase.induct)
  case (1 s)
  show ?case
  proof (cases "re_exec s")
    case None
    then have "marker_free s []" by (simp add: re_exec_None)
    with None show ?thesis by (simp add: scan_phrase.simps [of s])
  next
    case (Some a)
    then obtain t n r where a: "re_exec s = Some (t, n, r)" by (cases a) auto
    from "1" [OF a] have ih: "scanned (scan_phrase r)" by simp
    from re_exec_Some [OF a] have n: "marker_name n"
      and f: "marker_free t (CHR ''{'' # n @ CHR ''}'' # r)" by simp_all
    have sp: "scan_phrase s
                = (if 0 < length t then [Literal t] else []) @ Marker n # scan_phrase r"
      using a by (simp add: scan_phrase.simps [of s])
    from ih n f show ?thesis unfolding sp by (simp add: scan_phrase_render)
  qed
qed

lemma scanned_unique:
  "scanned toks \<Longrightarrow> concat (map render toks) = s \<Longrightarrow> toks = scan_phrase s"
proof (induction s arbitrary: toks rule: scan_phrase.induct)
  case (1 s)
  show ?case
  proof (cases toks)
    case Nil
    with "1.prems" have "s = []" by simp
    with Nil show ?thesis by (simp add: scan_phrase.simps [of "[]"])
  next
    case (Cons tok toks')
    show ?thesis
    proof (cases tok)
      case (Marker n)
      with Cons "1.prems" have n: "marker_name n" and sc: "scanned toks'"
        and s: "s = CHR ''{'' # n @ CHR ''}'' # concat (map render toks')" by simp_all
      from re_exec_marker [OF n] s
      have a: "re_exec s = Some ([], n, concat (map render toks'))" by simp
      from "1.IH" [OF a refl refl sc refl]
      have "toks' = scan_phrase (concat (map render toks'))" .
      with a Cons Marker show ?thesis by (simp add: scan_phrase.simps [of s])
    next
      case (Literal t)
      with Cons "1.prems" have t: "t \<noteq> []" and sc: "scanned toks'"
        and f: "marker_free t (concat (map render toks'))"
        and nl: "case toks' of Literal _ # _ \<Rightarrow> False | _ \<Rightarrow> True"
        and s: "s = t @ concat (map render toks')" by simp_all
      show ?thesis
      proof (cases toks')
        case Nil
        with f s have "re_exec s = None" by (simp add: re_exec_None)
        with Nil s t Cons Literal show ?thesis by (simp add: scan_phrase.simps [of t])
      next
        case c2: (Cons tok2 toks2)
        with nl obtain n where m: "tok2 = Marker n" by (cases tok2) simp_all
        with c2 sc have n: "marker_name n" and sc2: "scanned toks2" by simp_all
        let ?r = "concat (map render toks2)"
        from c2 m have u: "concat (map render toks') = CHR ''{'' # n @ CHR ''}'' # ?r" by simp
        from re_exec_free [OF f] u re_exec_marker [OF n, of ?r] s
        have a: "re_exec s = Some (t, n, ?r)" by simp
        from "1.IH" [OF a refl refl sc2 refl] have "toks2 = scan_phrase ?r" .
        with a t Cons Literal c2 m show ?thesis by (simp add: scan_phrase.simps [of s])
      qed
    qed
  qed
qed

lemma mapE_length: "mapE f xs = Inr ys \<Longrightarrow> length ys = length xs"
proof (induction xs arbitrary: ys)
  case Nil
  then show ?case by simp
next
  case (Cons x xs)
  from Cons.prems obtain y ys' where "mapE f xs = Inr ys'" and "ys = y # ys'"
    by (auto dest!: bindE_Inr)
  with Cons.IH show ?case by simp
qed

lemma phrase_data_scan:
  "phrase_data model intentKey dfIntentObj s
   = bindE (mapE (\<lambda>tok. case tok of
                     Literal t \<Rightarrow> Inr (text_object t)
                   | Marker entity \<Rightarrow> entity_object model intentKey dfIntentObj entity)
              (scan_phrase s))
       (\<lambda>d. Inr (if scan_phrase s = [] then [text_object s] else d))"
proof (cases "mapE (\<lambda>tok. case tok of
                     Literal t \<Rightarrow> Inr (text_object t)
                   | Marker entity \<Rightarrow> entity_object model intentKey dfIntentObj entity)
              (scan_phrase s)")
  case (Inl e)
  then show ?thesis by (simp add: phrase_data_def)
next
  case (Inr d)
  from mapE_length [OF Inr] have "length d = 0 \<longleftrightarrow> scan_phrase s = []" by simp
  with Inr show ?thesis by (simp add: phrase_data_def)
qed

text \<open>
  C6, as stated: an empty literal is left out only before the first marker, and is emitted
  between two markers and after the last one.  The export of the phrase \<open>{from}{to}\<close>
  has two segments, one for each marker, and no literal segment between or after them.
\<close>

theorem fromJovoModel_adjacent_markers_counterexample:
  "fromJovoModel (\<lambda>n. ''id'')
     \<lparr>version = Some ''4.0'', invocation = Some ''app'',
      intents = Some [(''Route'', \<lparr>phrases = Some [''{from}{to}''], entities = None,
                                     intent_dialogflow = None\<rparr>)],
      entityTypes = None, model_dialogflow = None\<rparr> ''en''
   = Inr ([\<lparr>path = [''intents'', ''Route.json''],
            content = JObj [(''id'', JStr ''id''), (''name'', JStr ''Route''),
                            (''auto'', JBool True), (''webhookUsed'', JBool True)]\<rparr>,
           \<lparr>path = [''intents'', ''Route_usersays_en.json''],
            content = JArr [JObj
              [(''id'', JStr ''id''),
               (''data'', JArr [JObj [(''text'', JStr ''from''), (''userDefined'', JBool True)],
                               JObj [(''text'', JStr ''to''), (''userDefined'', JBool True)]]),
               (''isTemplate'', JBool False), (''count'', JNum 0), (''lang'', JStr ''en'')]]\<rparr>],
          \<lparr>version = Some ''4.0'', invocation = Some ''app'',
           intents = Some [(''Route'', \<lparr>phrases = Some [''{from}{to}''], entities = None,
                                          intent_dialogflow = None\<rparr>)],
           entityTypes = None, model_dialogflow = None\<rparr>)"
  by code_simp

text \<open>
  C6, amended.  The export scans a phrase for markers from left to right.  A marker is an
  opening brace, a name without closing brace and without line terminator, and a closing
  brace, and each step takes the leftmost marker.  The scan of a phrase is a scan in the
  sense above that spells the phrase, and it is the only one: the names of its markers are
  such names, none of its literals is empty, no two literals are adjacent, and no marker
  begins inside a literal.  The export emits one segment for each token of the scan, in
  order, a literal segment for a literal and an entity segment for a marker, and it raises
  the error that the making of an entity segment raises, if one does.  So the text
  before the first marker, between two markers and after the last marker is emitted
  exactly when it is not empty, and a phrase without markers that is not empty is emitted
  as the single literal of its scan.  When the scan is empty, which is when the phrase is
  empty, the export emits a single literal segment with the empty phrase, the only empty
  literal it ever emits.
\<close>

theorem phrase_data_segments:
  "scanned (scan_phrase s) \<and> concat (map render (scan_phrase s)) = s
   \<and> (scanned toks \<and> concat (map render toks) = s \<longrightarrow>
        toks = scan_phrase s
        \<and> phrase_data model intentKey dfIntentObj s
          = bindE (mapE (\<lambda>tok. case tok of
                            Literal t \<Rightarrow> Inr (text_object t)
                          | Marker entity \<Rightarrow> entity_object model intentKey dfIntentObj entity)
                     toks)
              (\<lambda>d. Inr (if toks = [] then [text_object s] else d)))"
  using scan_phrase_scanned [of s] scan_phrase_render [of s] scanned_unique [of toks s]
        phrase_data_scan [of model intentKey dfIntentObj s]
  by auto

theorem phrase_data_segments_witness:
  "scanned [Literal ''fly '', Marker ''from'', Marker ''to'', Literal '' now'']
   \<and> concat (map render [Literal ''fly '', Marker ''from'', Marker ''to'', Literal '' now''])
       = ''fly {from}{to} now''
   \<and> scan_phrase ''fly {from}{to} now''
       = [Literal ''fly '', Marker ''from'', Marker ''to'', Literal '' now'']
   \<and> phrase_data \<lparr>version = Some ''4.0'', invocation = Some ''app'', intents = Some [],
                   entityTypes = None, model_dialogflow = None\<rparr> ''Route'' []
        ''fly {from}{to} now''
       = Inr [JObj [(''text'', JStr ''fly ''), (''userDefined'', JBool False)],
              JObj [(''text'', JStr ''from''), (''userDefined'', JBool True)],
              JObj [(''text'', JStr ''to''), (''userDefined'', JBool True)],
              JObj [(''text'', JStr '' now''), (''userDefined'', JBool False)]]"
proof -
  let ?toks = "[Literal ''fly '', Marker ''from'', Marker ''to'', Literal '' now'']"
  let ?M = "\<lparr>version = Some ''4.0'', invocation = Some ''app'', intents = Some [],
             entityTypes = None, model_dialogflow = None\<rparr>"
  have 1: "scanned ?toks"
    by (simp add: marker_name_def marker_start_def line_terminator_def)
  have 2: "concat (map render ?toks) = ''fly {from}{to} now''" by simp
  from phrase_data_segments [of "''fly {from}{to} now''" ?toks ?M "''Route''" "[]"] 1 2
  have 3: "?toks = scan_phrase ''fly {from}{to} now''"
    and 4: "phrase_data ?M ''Route'' [] ''fly {from}{to} now''
          = bindE (mapE (\<lambda>tok. case tok of
                            Literal t \<Rightarrow> Inr (text_object t)
                          | Marker entity \<Rightarrow> entity_object ?M ''Route'' [] entity)
                     ?toks)
              (\<lambda>d. Inr (if ?toks = [] then [text_object ''fly {from}{to} now''] else d))"
    by blast+
  have 5: "entity_object ?M ''Route'' [] e
           = Inr (JObj [(''text'', JStr e), (''userDefined'', JBool True)])" for e
    by (simp add: entity_object_def hasEntities_def getIntents_def obj_get_def at0_def
          lodash_get_def truthy_def)
  from 4 have 6: "phrase_data ?M ''Route'' [] ''fly {from}{to} now''
       = Inr [JObj [(''text'', JStr ''fly ''), (''userDefined'', JBool False)],
              JObj [(''text'', JStr ''from''), (''userDefined'', JBool True)],
              JObj [(''text'', JStr ''to''), (''userDefined'', JBool True)],
              JObj [(''text'', JStr '' now''), (''userDefined'', JBool False)]]"
    by (simp add: 5 text_object_def)
  from 1 2 3 6 show ?thesis by simp
qed

subsection \<open>Synonyms\<close>

lemma list_all_obj_set: "list_all P m \<Longrightarrow> P (k, v) \<Longrightarrow> list_all P (obj_set m k v)"
  by (induction m) auto

lemma skipDefaultEntityProps_values [simp]:
  "type_values (skipDefaultEntityProps t e) = type_values t"
  by (simp add: skipDefaultEntityProps_def skipDefaultEntityProp_def set_type_dialogflow_def)

lemma toJovoModel_entry_ok:
  "values_ok t \<Longrightarrow> toJovoModel_entry e t entry = Inr t' \<Longrightarrow> values_ok t'"
  unfolding toJovoModel_entry_def values_ok_def Let_def
  by (auto simp: synonyms_ok_def list_all_iff dest!: bindE_Inr split: if_splits option.splits)

lemma toJovoModel_entries_ok:
  assumes ok: "values_ok t" and r: "toJovoModel_entries fs l e name t = Inr t'"
  shows "values_ok t'"
proof (cases "find_file fs (name @ ''_entries_'' @ l @ ''.json'')")
  case None
  with r ok show ?thesis by (simp add: toJovoModel_entries_def)
next
  case (Some u)
  with r obtain es where "foldE (toJovoModel_entry e) t es = Inr t'"
    by (auto simp: toJovoModel_entries_def dest!: bindE_Inr)
  from foldE_invariant [where P = values_ok, OF _ ok this] toJovoModel_entry_ok
  show ?thesis by blast
qed

lemma toJovoModel_entity_ok:
  assumes ok: "types_ok m" and r: "toJovoModel_entity fs l m f = Inr m'"
  shows "types_ok m'"
proof -
  have t0: "values_ok (skipDefaultEntityProps
                         \<lparr>type_values = Some [], type_dialogflow = None\<rparr> c)" for c
    by (simp add: values_ok_def)
  show ?thesis
    using r ok unfolding toJovoModel_entity_def Let_def
    by (auto simp: types_ok_def dest!: bindE_Inr toJovoModel_entries_ok [OF t0]
             intro!: list_all_obj_set split: list.splits if_splits option.splits)
qed

lemma toJovoModel_intent_types:
  "toJovoModel_intent fs l m f = Inr m' \<Longrightarrow> entityTypes m' = entityTypes m"
  unfolding toJovoModel_intent_def Let_def
  by (auto simp: set_dialogflow_intents_def dest!: bindE_Inr
           split: list.splits if_splits option.splits)

lemma toJovoModel_types_ok: "toJovoModel inputData locale = Inr m \<Longrightarrow> types_ok m"
proof -
  assume a: "toJovoModel inputData locale = Inr m"
  let ?m0 = "\<lparr>version = Some ''4.0'', invocation = Some [], intents = Some [],
               entityTypes = Some [], model_dialogflow = None\<rparr>"
  let ?is = "filter (\<lambda>file. length (path file) \<noteq> 0 \<and> hd (path file) = ''intents'') inputData"
  let ?es = "filter (\<lambda>file. length (path file) \<noteq> 0 \<and> hd (path file) = ''entities'') inputData"
  have h0: "types_ok ?m0" by (simp add: types_ok_def)
  have i: "\<And>s x s'. types_ok s \<Longrightarrow> toJovoModel_intent ?is locale s x = Inr s' \<Longrightarrow> types_ok s'"
    by (simp add: types_ok_def toJovoModel_intent_types)
  from a obtain m1 where
    m1: "foldE (toJovoModel_intent ?is locale) ?m0 ?is = Inr m1"
    and m2: "foldE (toJovoModel_entity ?es locale) m1 ?es = Inr m"
    unfolding toJovoModel_def Let_def by (auto dest!: bindE_Inr)
  have "types_ok m1"
    using foldE_invariant [where P = types_ok, OF i h0 m1] .
  then show "types_ok m"
    using foldE_invariant [where P = types_ok, OF _ _ m2] toJovoModel_entity_ok by blast
qed

lemma sanitize_cleaned: "sanitize s = cleaned s"
  by (simp add: sanitize_def cleaned_def kept_char_class cong: filter_cong)

lemma mapE_cleaned: "mapE sanitize_value (map JStr ys) = Inr (map cleaned ys)"
  by (induction ys) (simp_all add: sanitize_value_def sanitize_cleaned)

lemma mapE_not_string:
  "\<not> list_all is_string ys \<Longrightarrow> mapE sanitize_value ys = Inl TypeError"
proof (induction ys)
  case Nil
  then show ?case by simp
next
  case (Cons y ys)
  show ?case
  proof (cases "is_string y")
    case True
    then obtain x where "y = JStr x" by (cases y) (simp_all add: is_string_def)
    then have 1: "sanitize_value y = Inr (sanitize x)" by (simp add: sanitize_value_def)
    from True Cons have "mapE sanitize_value ys = Inl TypeError" by simp
    with 1 show ?thesis by simp
  next
    case False
    then have "sanitize_value y = Inl TypeError"
      by (cases y) (simp_all add: sanitize_value_def is_string_def)
    then show ?thesis by simp
  qed
qed

lemma fromJovoModel_value_string:
  "fromJovoModel_value dfEntityObj (entityValues, vals) (ValueString s)
   = Inr (entityValues @ [JObj [(''value'', JStr s)]], vals @ [ValueString s])"
  by (simp add: fromJovoModel_value_def)

lemma fromJovoModel_value_enum:
  "truthy (obj_get dfEntityObj ''isEnum'') \<or> truthy (obj_get dfEntityObj ''isRegexp'') \<Longrightarrow>
   fromJovoModel_value dfEntityObj (entityValues, vals) (ValueObject v syns)
   = Inr (entityValues @ [JObj [(''value'', v)]], vals @ [ValueObject v syns])"
  by (auto simp: fromJovoModel_value_def)

lemma fromJovoModel_value_cleaned:
  assumes "\<not> truthy (obj_get dfEntityObj ''isEnum'')"
    and "\<not> truthy (obj_get dfEntityObj ''isRegexp'')"
  shows "fromJovoModel_value dfEntityObj (entityValues, vals)
           (ValueObject (JStr x) (map_option (map JStr) l))
         = Inr (entityValues @
                  [JObj [(''value'', JStr x),
                         (''synonyms'', JArr (map JStr (cleaned x # map cleaned
                             (case l of None \<Rightarrow> [] | Some ys \<Rightarrow> ys))))]],
                vals @ [ValueObject (JStr x) (map_option (map (\<lambda>y. JStr (cleaned y))) l)])"
  using assms
  by (cases l)
     (simp_all add: fromJovoModel_value_def sanitize_value_def sanitize_cleaned mapE_cleaned
        comp_def)

lemma fromJovoModel_value_not_string:
  assumes "\<not> truthy (obj_get dfEntityObj ''isEnum'')"
    and "\<not> truthy (obj_get dfEntityObj ''isRegexp'')"
    and "\<not> is_string v \<or> \<not> list_all is_string (case syns of None \<Rightarrow> [] | Some ys \<Rightarrow> ys)"
  shows "fromJovoModel_value dfEntityObj (entityValues, vals) (ValueObject v syns) = Inl TypeError"
proof (cases "is_string v")
  case False
  then have "sanitize_value v = Inl TypeError"
    by (cases v) (simp_all add: sanitize_value_def is_string_def)
  with assms(1,2) show ?thesis by (simp add: fromJovoModel_value_def)
next
  case True
  then obtain x where v: "v = JStr x" by (cases v) (simp_all add: is_string_def)
  from True assms(3) obtain ys where s: "syns = Some ys" and n: "\<not> list_all is_string ys"
    by (cases syns) auto
  from mapE_not_string [OF n] assms(1,2) v s show ?thesis
    by (simp add: fromJovoModel_value_def sanitize_value_def)
qed

text \<open>
  C5, as stated: the cleaning of a synonym on export removes exactly the characters that
  are not alphanumeric, not an apostrophe and not accented Latin.  It keeps the hyphen and
  the space of \<open>to-do list\<close>, which are none of these.
\<close>

theorem sanitize_keeps_hyphen_counterexample:
  "sanitize ''to-do list'' = ''to-do list''
   \<and> filter spec_kept_char ''to-do list'' = ''todolist''"
  by (simp add: sanitize_def kept_char_class spec_kept_char_def)

text \<open>
  C5, amended.  In a model the importer returns, the synonym list of an entity-type value
  has no member strictly equal to the value, and is absent rather than empty.  On export, a
  value that is a plain string, and every value of an entity type whose record is an
  enumeration or a regular expression, gets an entry with the value and no synonyms.  Any
  other value is an object with a value and, possibly, declared synonyms: its entry has the
  value as it is and, as synonyms, the cleaned copy of the value followed by the cleaned
  declared synonyms, if there are any; the export raises a \<open>TypeError\<close> when the value or
  a declared synonym is not a string.  The cleaning keeps the digits, the letters from
  \<open>A\<close> to \<open>Z\<close> and from \<open>a\<close> to \<open>z\<close>, the hyphen, the underscore, the space, the
  apostrophe, the code units from U+00C0 to U+00FF and, by the case folding of the flag
  \<open>i\<close>, U+0178, and removes every other code unit; this is shown for the code units
  below U+0100 and for U+0178, and the strings of the development hold code units below
  U+0100.
\<close>

theorem synonyms_import_export:
  "(toJovoModel inputData locale = Inr m \<longrightarrow> types_ok m)
   \<and> fromJovoModel_value dfEntityObj (entityValues, vals) (ValueString s)
       = Inr (entityValues @ [JObj [(''value'', JStr s)]], vals @ [ValueString s])
   \<and> (truthy (obj_get dfEntityObj ''isEnum'') \<or> truthy (obj_get dfEntityObj ''isRegexp'') \<longrightarrow>
        fromJovoModel_value dfEntityObj (entityValues, vals) (ValueObject v syns)
        = Inr (entityValues @ [JObj [(''value'', v)]], vals @ [ValueObject v syns]))
   \<and> (\<not> truthy (obj_get dfEntityObj ''isEnum'') \<and> \<not> truthy (obj_get dfEntityObj ''isRegexp'') \<longrightarrow>
        fromJovoModel_value dfEntityObj (entityValues, vals)
          (ValueObject (JStr x) (map_option (map JStr) l))
        = Inr (entityValues @
                 [JObj [(''value'', JStr x),
                        (''synonyms'', JArr (map JStr (cleaned x # map cleaned
                            (case l of None \<Rightarrow> [] | Some ys \<Rightarrow> ys))))]],
               vals @ [ValueObject (JStr x) (map_option (map (\<lambda>y. JStr (cleaned y))) l)]))
   \<and> (\<not> truthy (obj_get dfEntityObj ''isEnum'') \<and> \<not> truthy (obj_get dfEntityObj ''isRegexp'')
       \<and> (\<not> is_string v
           \<or> \<not> list_all is_string (case syns of None \<Rightarrow> [] | Some ys \<Rightarrow> ys)) \<longrightarrow>
        fromJovoModel_value dfEntityObj (entityValues, vals) (ValueObject v syns) = Inl TypeError)
   \<and> (n < 256 \<or> n = 376 \<longrightarrow>
        (class_member n \<longleftrightarrow>
           (48 \<le> n \<and> n \<le> 57) \<or> (65 \<le> n \<and> n \<le> 90) \<or> (97 \<le> n \<and> n \<le> 122)
           \<or> (192 \<le> n \<and> n \<le> 255) \<or> n = 45 \<or> n = 95 \<or> n = 39 \<or> n = 32 \<or> n = 376))"
proof (intro conjI impI)
  show "types_ok m" if "toJovoModel inputData locale = Inr m"
    using that by (rule toJovoModel_types_ok)
  show "fromJovoModel_value dfEntityObj (entityValues, vals) (ValueString s)
       = Inr (entityValues @ [JObj [(''value'', JStr s)]], vals @ [ValueString s])"
    by (rule fromJovoModel_value_string)
  show "fromJovoModel_value dfEntityObj (entityValues, vals) (ValueObject v syns)
        = Inr (entityValues @ [JObj [(''value'', v)]], vals @ [ValueObject v syns])"
    if "truthy (obj_get dfEntityObj ''isEnum'') \<or> truthy (obj_get dfEntityObj ''isRegexp'')"
    using that by (rule fromJovoModel_value_enum)
  show "fromJovoModel_value dfEntityObj (entityValues, vals)
          (ValueObject (JStr x) (map_option (map JStr) l))
        = Inr (entityValues @
                 [JObj [(''value'', JStr x),
                        (''synonyms'', JArr (map JStr (cleaned x # map cleaned
                            (case l of None \<Rightarrow> [] | Some ys \<Rightarrow> ys))))]],
               vals @ [ValueObject (JStr x) (map_option (map (\<lambda>y. JStr (cleaned y))) l)])"
    if "\<not> truthy (obj_get dfEntityObj ''isEnum'') \<and> \<not> truthy (obj_get dfEntityObj ''isRegexp'')"
    using that by (intro fromJovoModel_value_cleaned) simp_all
  show "fromJovoModel_value dfEntityObj (entityValues, vals) (ValueObject v syns) = Inl TypeError"
    if "\<not> truthy (obj_get dfEntityObj ''isEnum'') \<and> \<not> truthy (obj_get dfEntityObj ''isRegexp'')
       \<and> (\<not> is_string v
           \<or> \<not> list_all is_string (case syns of None \<Rightarrow> [] | Some ys \<Rightarrow> ys))"
    using that by (intro fromJovoModel_value_not_string) simp_all
  show "class_member n \<longleftrightarrow>
           (48 \<le> n \<and> n \<le> 57) \<or> (65 \<le> n \<and> n \<le> 90) \<or> (97 \<le> n \<and> n \<le> 122)
           \<or> (192 \<le> n \<and> n \<le> 255) \<or> n = 45 \<or> n = 95 \<or> n = 39 \<or> n = 32 \<or> n = 376"
    if "n < 256 \<or> n = 376"
    using class_member_units [OF that] by (simp add: in_class_def disj_ac)
qed

theorem synonyms_import_export_witness:
  "toJovoModel
     [\<lparr>path = [''entities'', ''city.json''],
       content = JObj [(''name'', JStr ''city''), (''isOverridable'', JBool True),
                       (''isEnum'', JBool False), (''automatedExpansion'', JBool False),
                       (''isRegexp'', JBool False), (''allowFuzzyExtraction'', JBool False)]\<rparr>,
      \<lparr>path = [''entities'', ''city_entries_en.json''],
       content = JArr [JObj [(''value'', JStr ''nyc''),
                             (''synonyms'', JArr [JStr ''nyc'', JStr ''new york''])],
                       JObj [(''value'', JStr ''rome''),
                             (''synonyms'', JArr [JStr ''rome''])]]\<rparr>] ''en''
   = Inr \<lparr>version = Some ''4.0'', invocation = Some [], intents = Some [],
          entityTypes = Some [(''city'',
            \<lparr>type_values = Some [ValueObject (JStr ''nyc'') (Some [JStr ''new york'']),
                                 ValueObject (JStr ''rome'') None],
             type_dialogflow = None\<rparr>)],
          model_dialogflow = None\<rparr>
   \<and> types_ok \<lparr>version = Some ''4.0'', invocation = Some [], intents = Some [],
          entityTypes = Some [(''city'',
            \<lparr>type_values = Some [ValueObject (JStr ''nyc'') (Some [JStr ''new york'']),
                                 ValueObject (JStr ''rome'') None],
             type_dialogflow = None\<rparr>)],
          model_dialogflow = None\<rparr>
   \<and> fromJovoModel_value [(''isEnum'', JBool True)] ([], [])
        (ValueObject (JStr ''a.b'') (Some [JStr ''x!'']))
     = Inr ([JObj [(''value'', JStr ''a.b'')]], [ValueObject (JStr ''a.b'') (Some [JStr ''x!''])])
   \<and> fromJovoModel_value DIALOGFLOW_LM_ENTITY ([], [])
        (ValueObject (JStr ''St. John's'') (Some [JStr ''St John!'']))
     = Inr ([JObj [(''value'', JStr ''St. John's''),
                   (''synonyms'', JArr [JStr ''St John's'', JStr ''St John''])]],
            [ValueObject (JStr ''St. John's'') (Some [JStr ''St John''])])
   \<and> fromJovoModel_value DIALOGFLOW_LM_ENTITY ([], []) (ValueObject (JStr ''to-do'') None)
     = Inr ([JObj [(''value'', JStr ''to-do''), (''synonyms'', JArr [JStr ''to-do''])]],
            [ValueObject (JStr ''to-do'') None])
   \<and> fromJovoModel_value DIALOGFLOW_LM_ENTITY ([], []) (ValueObject (JNum 5) None)
     = Inl TypeError
   \<and> class_member 376 \<and> \<not> class_member 181"
proof -
  have e: "toJovoModel
     [\<lparr>path = [''entities'', ''city.json''],
       content = JObj [(''name'', JStr ''city''), (''isOverridable'', JBool True),
                       (''isEnum'', JBool False), (''automatedExpansion'', JBool False),
                       (''isRegexp'', JBool False), (''allowFuzzyExtraction'', JBool False)]\<rparr>,
      \<lparr>path = [''entities'', ''city_entries_en.json''],
       content = JArr [JObj [(''value'', JStr ''nyc''),
                             (''synonyms'', JArr [JStr ''nyc'', JStr ''new york''])],
                       JObj [(''value'', JStr ''rome''),
                             (''synonyms'', JArr [JStr ''rome''])]]\<rparr>] ''en''
   = Inr \<lparr>version = Some ''4.0'', invocation = Some [], intents = Some [],
          entityTypes = Some [(''city'',
            \<lparr>type_values = Some [ValueObject (JStr ''nyc'') (Some [JStr ''new york'']),
                                 ValueObject (JStr ''rome'') None],
             type_dialogflow = None\<rparr>)],
          model_dialogflow = None\<rparr>"
    by code_simp
  have t: "\<not> truthy (obj_get DIALOGFLOW_LM_ENTITY ''isEnum'')
           \<and> \<not> truthy (obj_get DIALOGFLOW_LM_ENTITY ''isRegexp'')"
    by (simp add: DIALOGFLOW_LM_ENTITY_def obj_get_def truthy_def)
  have u: "truthy (obj_get [(''isEnum'', JBool True)] ''isEnum'')
           \<or> truthy (obj_get [(''isEnum'', JBool True)] ''isRegexp'')"
    by (simp add: obj_get_def truthy_def)
  have n: "\<not> is_string (JNum 5)
           \<or> \<not> list_all is_string (case None of None \<Rightarrow> [] | Some ys \<Rightarrow> ys)"
    by (simp add: is_string_def)
  have c: "cleaned ''St. John's'' = ''St John's''" "cleaned ''St John!'' = ''St John''"
    "cleaned ''to-do'' = ''to-do''"
    by (simp_all add: cleaned_def)
  note th = synonyms_import_export [where entityValues = "[]" and vals = "[]"]
  from th [THEN conjunct1, THEN mp, OF e]
  have 1: "types_ok \<lparr>version = Some ''4.0'', invocation = Some [], intents = Some [],
          entityTypes = Some [(''city'',
            \<lparr>type_values = Some [ValueObject (JStr ''nyc'') (Some [JStr ''new york'']),
                                 ValueObject (JStr ''rome'') None],
             type_dialogflow = None\<rparr>)],
          model_dialogflow = None\<rparr>" .
  from th [where dfEntityObj = "[(''isEnum'', JBool True)]" and v = "JStr ''a.b''"
              and syns = "Some [JStr ''x!'']",
           THEN conjunct2, THEN conjunct2, THEN conjunct1, THEN mp, OF u]
  have 2: "fromJovoModel_value [(''isEnum'', JBool True)] ([], [])
        (ValueObject (JStr ''a.b'') (Some [JStr ''x!'']))
     = Inr ([JObj [(''value'', JStr ''a.b'')]], [ValueObject (JStr ''a.b'') (Some [JStr ''x!''])])"
    by simp
  from th [where dfEntityObj = DIALOGFLOW_LM_ENTITY and x = "''St. John's''"
              and l = "Some [''St John!'']",
           THEN conjunct2, THEN conjunct2, THEN conjunct2, THEN conjunct1, THEN mp, OF t]
  have 3: "fromJovoModel_value DIALOGFLOW_LM_ENTITY ([], [])
        (ValueObject (JStr ''St. John's'') (Some [JStr ''St John!'']))
     = Inr ([JObj [(''value'', JStr ''St. John's''),
                   (''synonyms'', JArr [JStr ''St John's'', JStr ''St John''])]],
            [ValueObject (JStr ''St. John's'') (Some [JStr ''St John''])])"
    by (simp add: c)
  from th [where dfEntityObj = DIALOGFLOW_LM_ENTITY and x = "''to-do''" and l = None,
           THEN conjunct2, THEN conjunct2, THEN conjunct2, THEN conjunct1, THEN mp, OF t]
  have 4: "fromJovoModel_value DIALOGFLOW_LM_ENTITY ([], []) (ValueObject (JStr ''to-do'') None)
     = Inr ([JObj [(''value'', JStr ''to-do''), (''synonyms'', JArr [JStr ''to-do''])]],
            [ValueObject (JStr ''to-do'') None])"
    by (simp add: c)
  from th [where dfEntityObj = DIALOGFLOW_LM_ENTITY and v = "JNum 5" and syns = None,
           THEN conjunct2, THEN conjunct2, THEN conjunct2, THEN conjunct2, THEN conjunct1,
           THEN mp, OF conjI [OF conjunct1 [OF t] conjI [OF conjunct2 [OF t] n]]]
  have 5: "fromJovoModel_value DIALOGFLOW_LM_ENTITY ([], []) (ValueObject (JNum 5) None)
     = Inl TypeError" .
  from th [where n = 376, THEN conjunct2, THEN conjunct2, THEN conjunct2, THEN conjunct2,
           THEN conjunct2]
  have 6: "class_member 376" by simp
  from th [where n = 181, THEN conjunct2, THEN conjunct2, THEN conjunct2, THEN conjunct2,
           THEN conjunct2]
  have 7: "\<not> class_member 181" by simp
  from e 1 2 3 4 5 6 7 show ?thesis by (intro conjI)
qed

subsection \<open>Identifiers\<close>

lemma rel_sum_eq_refl: "(\<And>v. R v v) \<Longrightarrow> a = b \<Longrightarrow> rel_sum (=) R a b"
  by (cases a) auto

lemma id_rel_refl [simp]: "id_rel x x"
  by (simp add: id_rel_def)

lemma field_rel_refl [simp]: "field_rel p p"
  by (simp add: field_rel_def)

lemma obj_rel_refl [simp]: "obj_rel a a"
  by (simp add: obj_rel_def list_all2_same)

lemma obj_rel_Nil [simp]: "obj_rel [] []"
  by (simp add: obj_rel_def)

lemma obj_rel_Cons [simp]: "obj_rel (p # a) (q # b) \<longleftrightarrow> field_rel p q \<and> obj_rel a b"
  by (simp add: obj_rel_def)

lemma obj_rel_induct [consumes 1, case_names Nil Cons]:
  assumes "obj_rel a b" and "P [] []"
    and "\<And>p q a b. field_rel p q \<Longrightarrow> obj_rel a b \<Longrightarrow> P a b \<Longrightarrow> P (p # a) (q # b)"
  shows "P a b"
  using assms unfolding obj_rel_def by (induction a b rule: list_all2_induct) auto

lemma obj_rel_get: "obj_rel a b \<Longrightarrow> k \<noteq> ''id'' \<Longrightarrow> obj_get a k = obj_get b k"
proof (induction a b rule: obj_rel_induct)
  case Nil
  then show ?case by simp
next
  case (Cons p q a b)
  then show ?case
    by (cases p; cases q) (auto simp: obj_get_def field_rel_def split: if_splits)
qed

lemma obj_rel_get_id: "obj_rel a b \<Longrightarrow> id_rel (obj_get a ''id'') (obj_get b ''id'')"
proof (induction a b rule: obj_rel_induct)
  case Nil
  then show ?case by simp
next
  case (Cons p q a b)
  then show ?case
    by (cases p; cases q) (auto simp: obj_get_def field_rel_def split: if_splits)
qed

lemma obj_rel_set:
  "obj_rel a b \<Longrightarrow> field_rel (k, v) (k, w) \<Longrightarrow> obj_rel (obj_set a k v) (obj_set b k w)"
proof (induction a b rule: obj_rel_induct)
  case Nil
  then show ?case by simp
next
  case (Cons p q a b)
  then show ?case
    by (cases p; cases q) (auto simp: field_rel_def)
qed

lemma obj_rel_del: "obj_rel a b \<Longrightarrow> obj_del a ''id'' = obj_del b ''id''"
proof (induction a b rule: obj_rel_induct)
  case Nil
  then show ?case by simp
next
  case (Cons p q a b)
  then show ?case
    by (cases p; cases q) (auto simp: field_rel_def obj_del_def split: if_splits)
qed

lemma merge_value_rel:
  assumes "id_rel x y"
  shows "rel_sum (=) id_rel (merge_value x sv) (merge_value y sv)"
proof (cases "x = y")
  case True
  then show ?thesis by (simp add: rel_sum_eq_refl)
next
  case False
  with assms obtain a b where ab: "x = JStr a" "y = JStr b" by (auto simp: id_rel_def)
  show ?thesis
  proof (cases "sv = JUndefined")
    case True
    with ab show ?thesis by (simp add: id_rel_def)
  next
    case False
    with ab have "merge_value x sv = merge_value y sv"
      by (cases sv) (simp_all add: array_like_def)
    then show ?thesis by (simp add: rel_sum_eq_refl)
  qed
qed

lemma merge_object_rel:
  "obj_rel a b \<Longrightarrow> rel_sum (=) obj_rel (merge_object a src) (merge_object b src)"
proof (induction src arbitrary: a b)
  case Nil
  then show ?case by simp
next
  case (Cons p src)
  have v: "rel_sum (=) id_rel (merge_value (obj_get a (fst p)) (snd p))
             (merge_value (obj_get b (fst p)) (snd p))"
  proof (cases "fst p = ''id''")
    case True
    with merge_value_rel [OF obj_rel_get_id [OF Cons.prems]] show ?thesis by simp
  next
    case False
    with obj_rel_get [OF Cons.prems] show ?thesis by (simp add: rel_sum_eq_refl)
  qed
  show ?case
  proof (cases "merge_value (obj_get a (fst p)) (snd p)")
    case (Inl e)
    with v show ?thesis by (cases "merge_value (obj_get b (fst p)) (snd p)") simp_all
  next
    case (Inr x)
    with v obtain y where y: "merge_value (obj_get b (fst p)) (snd p) = Inr y" and xy: "id_rel x y"
      by (cases "merge_value (obj_get b (fst p)) (snd p)") simp_all
    have "field_rel (fst p, x) (fst p, y)"
    proof (cases "fst p = ''id''")
      case True
      with xy show ?thesis by (simp add: field_rel_def)
    next
      case False
      with obj_rel_get [OF Cons.prems] Inr y have "x = y" by simp
      then show ?thesis by simp
    qed
    from Cons.IH [OF obj_rel_set [OF Cons.prems this]] Inr y show ?thesis by simp
  qed
qed

lemma foldE_rel:
  assumes step: "\<And>s t x. R s t \<Longrightarrow> rel_sum (=) R (f s x) (g t x)"
  shows "R s t \<Longrightarrow> rel_sum (=) R (foldE f s xs) (foldE g t xs)"
proof (induction xs arbitrary: s t)
  case Nil
  then show ?case by simp
next
  case (Cons x xs)
  note r = step [OF Cons.prems, of x]
  show ?case
  proof (cases "f s x")
    case (Inl e)
    with r show ?thesis by (cases "g t x") simp_all
  next
    case (Inr a)
    with r obtain b where b: "g t x = Inr b" and ab: "R a b"
      by (cases "g t x") simp_all
    from Cons.IH [OF ab] Inr b show ?thesis by simp
  qed
qed

lemma bindE_rel:
  assumes "rel_sum (=) R m m'" and "\<And>x y. R x y \<Longrightarrow> rel_sum (=) S (f x) (g y)"
  shows "rel_sum (=) S (bindE m f) (bindE m' g)"
proof (cases m)
  case (Inl e)
  with assms(1) show ?thesis by (cases m') simp_all
next
  case (Inr x)
  with assms(1) obtain y where "m' = Inr y" "R x y" by (cases m') simp_all
  with Inr assms(2) show ?thesis by simp
qed

lemma entity_record_rel:
  "rel_sum (=) obj_rel (entity_record w n et) (entity_record w' n et)"
proof -
  have D: "obj_rel (obj_set (obj_set DIALOGFLOW_LM_ENTITY ''id'' (JStr w)) ''name'' (JStr n))
                   (obj_set (obj_set DIALOGFLOW_LM_ENTITY ''id'' (JStr w')) ''name'' (JStr n))"
    by (intro obj_rel_set) (simp_all add: field_rel_def id_rel_def)
  show ?thesis
  proof (cases "type_dialogflow et")
    case None
    with D show ?thesis by (simp add: entity_record_def Let_def)
  next
    case (Some d)
    show ?thesis
    proof (cases d)
      case (DialogflowName x)
      with Some D show ?thesis
        by (simp add: entity_record_def Let_def obj_rel_set field_rel_def)
    next
      case (DialogflowObject ob)
      with Some merge_object_rel [OF D] show ?thesis by (simp add: entity_record_def Let_def)
    qed
  qed
qed

lemma fromJovoModel_value_rel:
  assumes ab: "obj_rel a b"
  shows "fromJovoModel_value a = fromJovoModel_value b"
proof -
  have 1: "obj_get a ''isEnum'' = obj_get b ''isEnum''"
    and 2: "obj_get a ''isRegexp'' = obj_get b ''isRegexp''"
    using obj_rel_get [OF ab] by simp_all
  show ?thesis by (intro ext) (simp only: fromJovoModel_value_def 1 2)
qed

lemma strip_ids_obj: "obj_rel a b \<Longrightarrow>
   strip_ids \<lparr>path = p, content = JObj a\<rparr> = strip_ids \<lparr>path = p, content = JObj b\<rparr>"
  by (simp add: strip_ids_def strip_id_def obj_rel_del)

lemma fromJovoModel_entries_st:
  assumes st: "st_rel s t"
  shows "rel_sum (=) st_rel (fromJovoModel_entries L a n et s) (fromJovoModel_entries L a n et t)"
proof (cases "type_values et")
  case None
  with st show ?thesis by (simp add: fromJovoModel_entries_def)
next
  case (Some vs)
  show ?thesis
  proof (cases vs)
    case Nil
    with Some st show ?thesis by (simp add: fromJovoModel_entries_def)
  next
    case (Cons v vs')
    show ?thesis
    proof (cases "foldE (fromJovoModel_value a) ([], []) (v # vs')")
      case (Inl x)
      with Some Cons show ?thesis by (simp add: fromJovoModel_entries_def del: foldE.simps)
    next
      case (Inr r)
      with Some Cons st show ?thesis
        by (cases r) (simp add: fromJovoModel_entries_def st_rel_def del: foldE.simps)
    qed
  qed
qed

lemma fromJovoModel_entries_rel:
  assumes ab: "obj_rel a b" and st: "st_rel s t"
  shows "rel_sum (=) st_rel (fromJovoModel_entries L a n et s) (fromJovoModel_entries L b n et t)"
proof -
  have "fromJovoModel_entries L a n et s = fromJovoModel_entries L b n et s"
    by (simp only: fromJovoModel_entries_def fromJovoModel_value_rel [OF ab])
  with fromJovoModel_entries_st [OF st, of L b n et] show ?thesis by simp
qed

lemma fromJovoModel_entityType_rel:
  assumes st: "st_rel s t"
  shows "rel_sum (=) st_rel (fromJovoModel_entityType u L s n) (fromJovoModel_entityType u' L t n)"
proof -
  from st have m: "st_model t = st_model s" and c: "next_uuid t = next_uuid s"
    by (simp_all add: st_rel_def)
  show ?thesis
  proof (cases "hasEntityTypes (st_model s)")
    case False
    then show ?thesis by (simp add: fromJovoModel_entityType_def m)
  next
    case True
    show ?thesis
    proof (cases "getEntityTypeByName (st_model s) n")
      case None
      with True show ?thesis by (simp add: fromJovoModel_entityType_def m)
    next
      case (Some et)
      have "rel_sum (=) st_rel
        (bindE (entity_record (u (next_uuid s)) n et) (\<lambda>dfEntityObj.
           fromJovoModel_entries L dfEntityObj n et
             (s\<lparr>returnFiles := returnFiles s @
                  [\<lparr>path = [''entities'', n @ ''.json''], content = JObj dfEntityObj\<rparr>],
                next_uuid := next_uuid s + 1\<rparr>)))
        (bindE (entity_record (u' (next_uuid s)) n et) (\<lambda>dfEntityObj.
           fromJovoModel_entries L dfEntityObj n et
             (t\<lparr>returnFiles := returnFiles t @
                  [\<lparr>path = [''entities'', n @ ''.json''], content = JObj dfEntityObj\<rparr>],
                next_uuid := next_uuid s + 1\<rparr>)))"
      proof (rule bindE_rel [OF entity_record_rel])
        fix x y assume xy: "obj_rel x y"
        show "rel_sum (=) st_rel
           (fromJovoModel_entries L x n et
             (s\<lparr>returnFiles := returnFiles s @
                  [\<lparr>path = [''entities'', n @ ''.json''], content = JObj x\<rparr>],
                next_uuid := next_uuid s + 1\<rparr>))
           (fromJovoModel_entries L y n et
             (t\<lparr>returnFiles := returnFiles t @
                  [\<lparr>path = [''entities'', n @ ''.json''], content = JObj y\<rparr>],
                next_uuid := next_uuid s + 1\<rparr>))"
          by (rule fromJovoModel_entries_rel [OF xy])
             (use st strip_ids_obj [OF xy] in \<open>simp add: st_rel_def\<close>)
      qed
      with True Some show ?thesis by (simp add: fromJovoModel_entityType_def m c)
    qed
  qed
qed

lemma fromJovoModel_entity_rel:
  assumes "rel_prod st_rel (=) sp tq"
  shows "rel_sum (=) (rel_prod st_rel (=))
           (fromJovoModel_entity u L K sp e) (fromJovoModel_entity u' L K tq e)"
proof -
  obtain s p where sp: "sp = (s, p)" by (cases sp)
  obtain t q where tq: "tq = (t, q)" by (cases tq)
  obtain k d where e: "e = (k, d)" by (cases e)
  from assms sp tq have st: "st_rel s t" and pq: "q = p" by simp_all
  show ?thesis
  proof (cases "entity_dataType K k d")
    case (Inl x)
    then show ?thesis by (simp add: fromJovoModel_entity_def sp tq e)
  next
    case (Inr dt)
    have 1: "rel_sum (=) (rel_prod st_rel (=))
       (if \<not> startsWith dt BUILTIN_PREFIX
        then bindE (fromJovoModel_entityType u L s dt) (\<lambda>st'. Inr (st', ''@'' @ dt))
        else Inr (s, dt))
       (if \<not> startsWith dt BUILTIN_PREFIX
        then bindE (fromJovoModel_entityType u' L t dt) (\<lambda>st'. Inr (st', ''@'' @ dt))
        else Inr (t, dt))"
    proof (cases "startsWith dt BUILTIN_PREFIX")
      case True
      with st show ?thesis by simp
    next
      case False
      have "rel_sum (=) (rel_prod st_rel (=))
              (bindE (fromJovoModel_entityType u L s dt) (\<lambda>st'. Inr (st', ''@'' @ dt)))
              (bindE (fromJovoModel_entityType u' L t dt) (\<lambda>st'. Inr (st', ''@'' @ dt)))"
        by (rule bindE_rel [OF fromJovoModel_entityType_rel [OF st]]) simp
      with False show ?thesis by simp
    qed
    have 2: "rel_sum (=) (rel_prod st_rel (=))
         ((\<lambda>(st', dataType'). bindE (parameter_record k d dataType')
              (\<lambda>parameterObj. Inr (st', p @ [JObj parameterObj]))) x)
         ((\<lambda>(st', dataType'). bindE (parameter_record k d dataType')
              (\<lambda>parameterObj. Inr (st', p @ [JObj parameterObj]))) y)"
      if xy: "rel_prod st_rel (=) x y" for x y
    proof -
      obtain a b where x: "x = (a, b)" by (cases x)
      obtain a' b' where y: "y = (a', b')" by (cases y)
      from xy x y have ab: "st_rel a a'" "b' = b" by simp_all
      show ?thesis
        unfolding x y using ab
        by (cases "parameter_record k d b") simp_all
    qed
    have "rel_sum (=) (rel_prod st_rel (=))
       (bindE (if \<not> startsWith dt BUILTIN_PREFIX
        then bindE (fromJovoModel_entityType u L s dt) (\<lambda>st'. Inr (st', ''@'' @ dt))
        else Inr (s, dt)) (\<lambda>(st', dataType'). bindE (parameter_record k d dataType')
              (\<lambda>parameterObj. Inr (st', p @ [JObj parameterObj]))))
       (bindE (if \<not> startsWith dt BUILTIN_PREFIX
        then bindE (fromJovoModel_entityType u' L t dt) (\<lambda>st'. Inr (st', ''@'' @ dt))
        else Inr (t, dt)) (\<lambda>(st', dataType'). bindE (parameter_record k d dataType')
              (\<lambda>parameterObj. Inr (st', p @ [JObj parameterObj]))))"
      by (rule bindE_rel [OF 1]) (rule 2)
    with Inr show ?thesis
      unfolding fromJovoModel_entity_def sp tq e pq by simp
  qed
qed

lemma entity_object_rel:
  assumes ab: "obj_rel a b"
  shows "entity_object m K a = entity_object m K b"
proof -
  have 1: "obj_get a ''responses'' = obj_get b ''responses''"
    using obj_rel_get [OF ab] by simp
  show ?thesis by (intro ext) (simp only: entity_object_def 1)
qed

lemma phrase_data_rel: "obj_rel a b \<Longrightarrow> phrase_data m K a = phrase_data m K b"
  by (intro ext) (simp only: phrase_data_def entity_object_rel)

lemma fromJovoModel_phrase_rel:
  assumes ab: "obj_rel a b"
    and xy: "rel_prod (=) (\<lambda>r r'. map strip_id r = map strip_id r') x y"
  shows "rel_sum (=) (rel_prod (=) (\<lambda>r r'. map strip_id r = map strip_id r'))
           (fromJovoModel_phrase u L m K a x ph) (fromJovoModel_phrase u' L m K b y ph)"
proof -
  obtain n r where x: "x = (n, r)" by (cases x)
  obtain n' r' where y: "y = (n', r')" by (cases y)
  from xy x y have n: "n' = n" and r: "map strip_id r = map strip_id r'" by simp_all
  show ?thesis
    unfolding fromJovoModel_phrase_def x y n phrase_data_rel [OF ab]
    using r by (cases "phrase_data m K b ph") (simp_all add: strip_id_def obj_del_def)
qed

lemma fromJovoModel_userSays_rel:
  assumes ab: "obj_rel a b" and st: "st_rel s t"
  shows "rel_sum (=) st_rel (fromJovoModel_userSays u L K a ps s)
           (fromJovoModel_userSays u' L K b ps t)"
proof -
  from st have m: "st_model t = st_model s" and c: "next_uuid t = next_uuid s"
    and f: "map strip_ids (returnFiles s) = map strip_ids (returnFiles t)"
    by (simp_all add: st_rel_def)
  let ?R = "rel_prod (=) (\<lambda>r r'. map strip_id r = map strip_id r')"
  have 1: "rel_sum (=) ?R
     (foldE (fromJovoModel_phrase u L (st_model s) K a) (next_uuid s, []) ps)
     (foldE (fromJovoModel_phrase u' L (st_model s) K b) (next_uuid s, []) ps)"
  proof (rule foldE_rel [where R = ?R])
    show "rel_sum (=) ?R (fromJovoModel_phrase u L (st_model s) K a x ph)
            (fromJovoModel_phrase u' L (st_model s) K b y ph)" if "?R x y" for x y ph
      using ab that by (rule fromJovoModel_phrase_rel)
    show "?R (next_uuid s, []) (next_uuid s, [])" by simp
  qed
  have 2: "rel_sum (=) st_rel
      ((\<lambda>(n, dialogFlowIntentUserSays).
          Inr (if 0 < length dialogFlowIntentUserSays
               then s\<lparr>returnFiles := returnFiles s @
                         [\<lparr>path = [''intents'', K @ ''_usersays_'' @ L @ ''.json''],
                           content = JArr dialogFlowIntentUserSays\<rparr>],
                       next_uuid := n\<rparr>
               else s\<lparr>next_uuid := n\<rparr>)) x)
      ((\<lambda>(n, dialogFlowIntentUserSays).
          Inr (if 0 < length dialogFlowIntentUserSays
               then t\<lparr>returnFiles := returnFiles t @
                         [\<lparr>path = [''intents'', K @ ''_usersays_'' @ L @ ''.json''],
                           content = JArr dialogFlowIntentUserSays\<rparr>],
                       next_uuid := n\<rparr>
               else t\<lparr>next_uuid := n\<rparr>)) y)"
    if xy: "?R x y" for x y
  proof -
    obtain n r where x: "x = (n, r)" by (cases x)
    obtain n' r' where y: "y = (n', r')" by (cases y)
    from xy x y have n: "n' = n" and r: "map strip_id r = map strip_id r'" by simp_all
    from r have "length r = length r'" by (rule map_eq_imp_length_eq)
    then have "r = [] \<longleftrightarrow> r' = []" by auto
    with r show ?thesis
      unfolding x y n using m f by (simp add: st_rel_def strip_ids_def)
  qed
  show ?thesis
    unfolding fromJovoModel_userSays_def m c
    by (rule bindE_rel [OF 1]) (rule 2)
qed

lemma intent_record_rel:
  assumes st: "st_rel s t"
  shows "rel_sum (=) (rel_prod st_rel obj_rel)
           (intent_record u L s K i) (intent_record u' L t K i)"
proof -
  from st have m: "st_model t = st_model s" and c: "next_uuid t = next_uuid s"
    by (simp_all add: st_rel_def)
  let ?D = "\<lambda>w. [(''id'', JStr w), (''name'', JStr K), (''auto'', JBool True),
                  (''webhookUsed'', JBool True)]"
  let ?A = "\<lambda>u s. if hasEntities (st_model s) K
      then bindE (foldE (fromJovoModel_entity u L K) (s\<lparr>next_uuid := Suc (next_uuid s)\<rparr>, [])
                    (getEntities (st_model s) K))
             (\<lambda>(st1, parameters).
                Inr (st1, obj_set (?D (u (next_uuid s))) ''responses''
                            (JArr [JObj [(''parameters'', JArr parameters)]])))
      else Inr (s\<lparr>next_uuid := Suc (next_uuid s)\<rparr>, ?D (u (next_uuid s)))"
  let ?B = "\<lambda>(st1, dfIntentObj1).
      bindE (case intent_dialogflow i of
               None \<Rightarrow> Inr dfIntentObj1
             | Some d \<Rightarrow> merge_object dfIntentObj1 d) (\<lambda>dfIntentObj.
        Inr (st1, dfIntentObj))"
  have D: "obj_rel (?D w) (?D w')" for w w'
    by (simp add: field_rel_def id_rel_def)
  have st0: "st_rel (s\<lparr>next_uuid := Suc (next_uuid s)\<rparr>) (t\<lparr>next_uuid := Suc (next_uuid t)\<rparr>)"
    using st by (simp add: st_rel_def)
  have 1: "rel_sum (=) (rel_prod st_rel obj_rel) (?A u s) (?A u' t)"
  proof (cases "hasEntities (st_model s) K")
    case False
    with st0 D show ?thesis by (simp add: m c)
  next
    case True
    have f: "rel_sum (=) (rel_prod st_rel (=))
       (foldE (fromJovoModel_entity u L K) (s\<lparr>next_uuid := Suc (next_uuid s)\<rparr>, [])
                    (getEntities (st_model s) K))
       (foldE (fromJovoModel_entity u' L K) (t\<lparr>next_uuid := Suc (next_uuid t)\<rparr>, [])
                    (getEntities (st_model s) K))"
    proof (rule foldE_rel [where R = "rel_prod st_rel (=)"])
      show "rel_sum (=) (rel_prod st_rel (=)) (fromJovoModel_entity u L K x e)
              (fromJovoModel_entity u' L K y e)" if "rel_prod st_rel (=) x y" for x y e
        using that by (rule fromJovoModel_entity_rel)
      show "rel_prod st_rel (=) (s\<lparr>next_uuid := Suc (next_uuid s)\<rparr>, [])
              (t\<lparr>next_uuid := Suc (next_uuid t)\<rparr>, [])"
        using st0 by simp
    qed
    have g: "rel_sum (=) (rel_prod st_rel obj_rel)
        ((\<lambda>(st1, parameters).
                Inr (st1, obj_set (?D (u (next_uuid s))) ''responses''
                            (JArr [JObj [(''parameters'', JArr parameters)]]))) x)
        ((\<lambda>(st1, parameters).
                Inr (st1, obj_set (?D (u' (next_uuid t))) ''responses''
                            (JArr [JObj [(''parameters'', JArr parameters)]]))) y)"
      if "rel_prod st_rel (=) x y" for x y
      using that by (cases x; cases y) (simp add: field_rel_def id_rel_def)
    from True bindE_rel [OF f g] show ?thesis by (simp only: m if_True)
  qed
  have 2: "rel_sum (=) (rel_prod st_rel obj_rel) (?B x) (?B y)"
    if xy: "rel_prod st_rel obj_rel x y" for x y
  proof -
    obtain a b where x: "x = (a, b)" by (cases x)
    obtain a' b' where y: "y = (a', b')" by (cases y)
    from xy x y have ab: "st_rel a a'" "obj_rel b b'" by simp_all
    have r: "rel_sum (=) obj_rel
            (case intent_dialogflow i of None \<Rightarrow> Inr b | Some d \<Rightarrow> merge_object b d)
            (case intent_dialogflow i of None \<Rightarrow> Inr b' | Some d \<Rightarrow> merge_object b' d)"
      using ab(2) merge_object_rel [OF ab(2)] by (cases "intent_dialogflow i") simp_all
    have "rel_sum (=) (rel_prod st_rel obj_rel)
            (bindE (case intent_dialogflow i of None \<Rightarrow> Inr b | Some d \<Rightarrow> merge_object b d)
               (\<lambda>dfIntentObj. Inr (a, dfIntentObj)))
            (bindE (case intent_dialogflow i of None \<Rightarrow> Inr b' | Some d \<Rightarrow> merge_object b' d)
               (\<lambda>dfIntentObj. Inr (a', dfIntentObj)))"
      by (rule bindE_rel [OF r]) (simp add: ab(1))
    then show ?thesis unfolding x y by simp
  qed
  have l: "intent_record u L s K i = bindE (?A u s) ?B" for u s
    by (simp add: intent_record_def Let_def)
  show ?thesis
    unfolding l by (rule bindE_rel [OF 1 2])
qed

lemma fromJovoModel_intent_rel:
  assumes st: "st_rel s t"
  shows "rel_sum (=) st_rel (fromJovoModel_intent u L s i) (fromJovoModel_intent u' L t i)"
proof -
  obtain K d where i: "i = (K, d)" by (cases i)
  let ?C = "\<lambda>u. (\<lambda>(st1, dfIntentObj).
         fromJovoModel_userSays u L K dfIntentObj
           (case phrases d of None \<Rightarrow> [] | Some ps \<Rightarrow> ps)
           (st1\<lparr>returnFiles := returnFiles st1 @
                  [\<lparr>path = [''intents'', K @ ''.json''],
                    content = JObj dfIntentObj\<rparr>]\<rparr>))"
  have 2: "rel_sum (=) st_rel (?C u x) (?C u' y)"
    if xy: "rel_prod st_rel obj_rel x y" for x y
  proof -
    obtain a b where x: "x = (a, b)" by (cases x)
    obtain a' b' where y: "y = (a', b')" by (cases y)
    from xy x y have ab: "st_rel a a'" "obj_rel b b'" by simp_all
    have "st_rel (a\<lparr>returnFiles := returnFiles a @
                  [\<lparr>path = [''intents'', K @ ''.json''], content = JObj b\<rparr>]\<rparr>)
                 (a'\<lparr>returnFiles := returnFiles a' @
                  [\<lparr>path = [''intents'', K @ ''.json''], content = JObj b'\<rparr>]\<rparr>)"
      using ab(1) strip_ids_obj [OF ab(2)] by (simp add: st_rel_def)
    from fromJovoModel_userSays_rel [OF ab(2) this] show ?thesis
      unfolding x y by simp
  qed
  have l: "fromJovoModel_intent u L s i = bindE (intent_record u L s K d) (?C u)" for u s
    by (simp add: fromJovoModel_intent_def i)
  show ?thesis
    unfolding l by (rule bindE_rel [OF intent_record_rel [OF st] 2])
qed

lemma fromJovoModel_dialogflow_strip:
  assumes "map strip_ids (fst st) = map strip_ids (fst st')" and "snd st = snd st'"
  shows "map strip_ids (fst (fromJovoModel_dialogflow dir k mid L st ob))
           = map strip_ids (fst (fromJovoModel_dialogflow dir k mid L st' ob))
         \<and> snd (fromJovoModel_dialogflow dir k mid L st ob)
           = snd (fromJovoModel_dialogflow dir k mid L st' ob)"
  using assms by (cases st; cases st') (simp add: fromJovoModel_dialogflow_def)

lemma foldl_dialogflow_strip:
  "map strip_ids (fst st) = map strip_ids (fst st') \<Longrightarrow> snd st = snd st' \<Longrightarrow>
   map strip_ids (fst (foldl (fromJovoModel_dialogflow dir k mid L) st l))
     = map strip_ids (fst (foldl (fromJovoModel_dialogflow dir k mid L) st' l))
   \<and> snd (foldl (fromJovoModel_dialogflow dir k mid L) st l)
     = snd (foldl (fromJovoModel_dialogflow dir k mid L) st' l)"
proof (induction l arbitrary: st st')
  case Nil
  then show ?case by simp
next
  case (Cons ob l)
  from fromJovoModel_dialogflow_strip [OF Cons.prems, of dir k mid L ob]
  have "map strip_ids (fst (fromJovoModel_dialogflow dir k mid L st ob))
          = map strip_ids (fst (fromJovoModel_dialogflow dir k mid L st' ob))"
    and "snd (fromJovoModel_dialogflow dir k mid L st ob)
          = snd (fromJovoModel_dialogflow dir k mid L st' ob)"
    by simp_all
  from Cons.IH [OF this] show ?case by simp
qed

lemma fromJovoModel_records_strip:
  assumes "map strip_ids fs = map strip_ids fs'"
  shows "map strip_ids (fst (fromJovoModel_records dir k mid L fs rs))
           = map strip_ids (fst (fromJovoModel_records dir k mid L fs' rs))
         \<and> snd (fromJovoModel_records dir k mid L fs rs)
           = snd (fromJovoModel_records dir k mid L fs' rs)"
proof (cases rs)
  case None
  with assms show ?thesis by (simp add: fromJovoModel_records_def)
next
  case (Some l)
  obtain a b where a: "foldl (fromJovoModel_dialogflow dir k mid L) (fs, []) l = (a, b)"
    by (cases "foldl (fromJovoModel_dialogflow dir k mid L) (fs, []) l")
  obtain a' b' where b: "foldl (fromJovoModel_dialogflow dir k mid L) (fs', []) l = (a', b')"
    by (cases "foldl (fromJovoModel_dialogflow dir k mid L) (fs', []) l")
  from foldl_dialogflow_strip [of "(fs, [])" "(fs', [])" dir k mid L l] assms a b
  show ?thesis
    by (simp add: fromJovoModel_records_def Some)
qed

lemma fromJovoModel_vendor_strip:
  assumes st: "st_rel s t"
  shows "map strip_ids (fst (fromJovoModel_vendor L s)) = map strip_ids (fst (fromJovoModel_vendor L t))
         \<and> snd (fromJovoModel_vendor L s) = snd (fromJovoModel_vendor L t)"
proof -
  from st have m: "st_model t = st_model s"
    and f: "map strip_ids (returnFiles s) = map strip_ids (returnFiles t)"
    by (simp_all add: st_rel_def)
  show ?thesis
  proof (cases "model_dialogflow (st_model s)")
    case None
    with m f show ?thesis by (simp add: fromJovoModel_vendor_def)
  next
    case (Some d)
    let ?i = "\<lambda>s. fromJovoModel_records ''intents'' ''userSays'' ''_usersays_'' L
                  (returnFiles s) (dialogflow_intents d)"
    let ?e = "\<lambda>s. fromJovoModel_records ''entities'' ''entries'' ''_entries_'' L
                  (fst (?i s)) (dialogflow_entities d)"
    note 1 = fromJovoModel_records_strip [OF f, of "''intents''" "''userSays''" "''_usersays_''" L
               "dialogflow_intents d"]
    note 2 = fromJovoModel_records_strip [OF 1 [THEN conjunct1], of "''entities''" "''entries''"
               "''_entries_''" L "dialogflow_entities d"]
    have v: "fromJovoModel_vendor L s =
        (fst (?e s), (st_model s)\<lparr>model_dialogflow :=
             Some (d\<lparr>dialogflow_intents := snd (?i s), dialogflow_entities := snd (?e s)\<rparr>)\<rparr>)"
      if "model_dialogflow (st_model s) = Some d" for s
      using that by (simp add: fromJovoModel_vendor_def split: prod.splits)
    from Some m have "model_dialogflow (st_model t) = Some d" by simp
    from v [OF Some] v [OF this] 1 2 m show ?thesis by simp
  qed
qed

text \<open>
  C9, as stated: two runs of the exporter on equal models and locales produce equal file
  sets.  Every intent record, entity record and sample record gets a freshly generated
  identifier, so two runs in which the generator hands out different identifiers produce
  different files.
\<close>

theorem fromJovoModel_fresh_ids_counterexample:
  "fromJovoModel (\<lambda>n. ''1b9d6bcd'')
     \<lparr>version = Some ''4.0'', invocation = Some ''app'',
      intents = Some [(''Hello'', \<lparr>phrases = Some [''hello''], entities = None,
                                     intent_dialogflow = None\<rparr>)],
      entityTypes = None, model_dialogflow = None\<rparr> ''en''
   \<noteq> fromJovoModel (\<lambda>n. ''6ec0bd7f'')
     \<lparr>version = Some ''4.0'', invocation = Some ''app'',
      intents = Some [(''Hello'', \<lparr>phrases = Some [''hello''], entities = None,
                                     intent_dialogflow = None\<rparr>)],
      entityTypes = None, model_dialogflow = None\<rparr> ''en''"
  by code_simp

text \<open>
  C9, amended.  The importer draws on nothing but its arguments, and so is a function of
  the file set and the locale.  The exporter draws identifiers besides: two runs on the
  same model and locale end alike, with the same error or with the same model and with
  file sets that are equal but for the identifiers of their records, whatever identifiers
  the generator hands out in either run.
\<close>

theorem fromJovoModel_ids_only:
  "stripped (fromJovoModel u model L) = stripped (fromJovoModel u' model L)"
proof -
  let ?s0 = "\<lparr>st_model = model, returnFiles = [], next_uuid = 0\<rparr>"
  let ?F = "\<lambda>u. foldE (fromJovoModel_intent u L) ?s0 (getIntents model)"
  have r: "rel_sum (=) st_rel (?F u) (?F u')"
  proof (rule foldE_rel [where R = st_rel])
    show "rel_sum (=) st_rel (fromJovoModel_intent u L s i) (fromJovoModel_intent u' L t i)"
      if "st_rel s t" for s t i using that by (rule fromJovoModel_intent_rel)
    show "st_rel ?s0 ?s0" by (simp add: st_rel_def)
  qed
  show ?thesis
  proof (cases "?F u")
    case (Inl e)
    with r have "?F u' = Inl e" by (cases "?F u'") simp_all
    with Inl show ?thesis by (simp add: fromJovoModel_def stripped_def)
  next
    case (Inr s)
    with r obtain t where t: "?F u' = Inr t" and st: "st_rel s t"
      by (cases "?F u'") simp_all
    obtain a b where a: "fromJovoModel_vendor L s = (a, b)"
      by (cases "fromJovoModel_vendor L s")
    obtain a' b' where b: "fromJovoModel_vendor L t = (a', b')"
      by (cases "fromJovoModel_vendor L t")
    from fromJovoModel_vendor_strip [OF st, of L] Inr t a b show ?thesis
      by (simp add: fromJovoModel_def stripped_def)
  qed
qed

subsection \<open>Round trips\<close>

text \<open>The export of a model that a round trip gives back: every step of the exporter
  succeeds, leaves the model as it is, and pushes the files described by \<open>file_kind\<close>.\<close>

lemma obj_set_same: "map_of m k = Some v \<Longrightarrow> obj_set m k v = m"
  by (induction m) (auto split: if_splits)

lemma obj_get_set: "obj_get (obj_set d k v) k' = (if k' = k then v else obj_get d k')"
  by (induction d) (auto simp: obj_get_def)

lemma pushes_refl: "pushes L [] st st"
  by (simp add: pushes_def)

lemma pushes_trans:
  "pushes L a st st1 \<Longrightarrow> pushes L b st1 st2 \<Longrightarrow> pushes L (a @ b) st st2"
  unfolding pushes_def by (auto intro: list_all2_appendI)

lemma pushes_one:
  "file_matches L k f \<Longrightarrow> st_model st' = st_model st \<Longrightarrow> returnFiles st' = returnFiles st @ [f]
   \<Longrightarrow> pushes L [k] st st'"
  by (simp add: pushes_def)

lemma mapE_clean:
  "list_all (\<lambda>x. clean_string x \<and> x \<noteq> v) l \<Longrightarrow>
   \<exists>l'. mapE sanitize_value l = Inr l' \<and> map JStr l' = l"
proof (induction l)
  case Nil
  then show ?case by simp
next
  case (Cons x l)
  then obtain l' where l': "mapE sanitize_value l = Inr l'" "map JStr l' = l" by auto
  from Cons.prems obtain s where s: "x = JStr s" "sanitize s = s"
    by (cases x) (auto simp: clean_string_def)
  then have "sanitize_value x = Inr s" by (simp add: sanitize_value_def)
  with l' s show ?case by simp
qed

lemma fromJovoModel_value_clean:
  assumes "\<not> truthy (obj_get dfe ''isEnum'')" "\<not> truthy (obj_get dfe ''isRegexp'')"
    and v: "round_trip_value val"
  shows "fromJovoModel_value dfe (evs, vals) val = Inr (evs @ [entry_of val], vals @ [val])"
proof (cases val)
  case (ValueString s)
  with v show ?thesis by (simp add: round_trip_value_def)
next
  case (ValueObject x syns)
  with v obtain s where s: "x = JStr s" "sanitize s = s"
    by (cases x) (auto simp: round_trip_value_def clean_string_def)
  show ?thesis
  proof (cases syns)
    case None
    with ValueObject s assms(1,2) show ?thesis
      by (simp add: fromJovoModel_value_def sanitize_value_def entry_of_def)
  next
    case (Some l)
    with v ValueObject have "list_all (\<lambda>y. clean_string y \<and> y \<noteq> x) l"
      by (simp add: round_trip_value_def)
    from mapE_clean [OF this] obtain l' where "mapE sanitize_value l = Inr l'" "map JStr l' = l"
      by blast
    with Some ValueObject s assms(1,2) show ?thesis
      by (simp add: fromJovoModel_value_def sanitize_value_def entry_of_def)
  qed
qed

lemma foldE_values_clean:
  assumes "\<not> truthy (obj_get dfe ''isEnum'')" "\<not> truthy (obj_get dfe ''isRegexp'')"
  shows "list_all round_trip_value vs \<Longrightarrow>
         foldE (fromJovoModel_value dfe) (evs, vals) vs = Inr (evs @ map entry_of vs, vals @ vs)"
proof (induction vs arbitrary: evs vals)
  case Nil
  then show ?case by simp
next
  case (Cons v vs)
  then show ?case
    by (simp add: fromJovoModel_value_clean [OF assms])
qed

lemma entity_record_plain:
  "type_dialogflow t = None \<Longrightarrow>
   entity_record x T t = Inr (DIALOGFLOW_LM_ENTITY @ [(''id'', JStr x), (''name'', JStr T)])"
  by (simp add: entity_record_def DIALOGFLOW_LM_ENTITY_def)

lemma template_flags:
  "\<not> truthy (obj_get (DIALOGFLOW_LM_ENTITY @ [(''id'', JStr x), (''name'', JStr T)]) ''isEnum'')"
  "\<not> truthy (obj_get (DIALOGFLOW_LM_ENTITY @ [(''id'', JStr x), (''name'', JStr T)]) ''isRegexp'')"
  by (simp_all add: DIALOGFLOW_LM_ENTITY_def obj_get_def truthy_def)

lemma fromJovoModel_entries_clean:
  assumes ts: "entityTypes (st_model st) = Some ts" and t: "map_of ts T = Some t"
    and rt: "round_trip_type (T, t)"
  shows "\<exists>st'. fromJovoModel_entries L (DIALOGFLOW_LM_ENTITY @ [(''id'', JStr x), (''name'', JStr T)])
                  T t st = Inr st'
           \<and> pushes L (case type_values t of None \<Rightarrow> [] | Some [] \<Rightarrow> []
                        | Some (v # vs) \<Rightarrow> [EntriesFile T (v # vs)]) st st'"
proof -
  from rt obtain vs where vs: "type_values t = Some vs" "list_all round_trip_value vs"
    by (auto simp: round_trip_type_def split: option.splits)
  show ?thesis
  proof (cases vs)
    case Nil
    with vs show ?thesis by (simp add: fromJovoModel_entries_def pushes_refl)
  next
    case (Cons v vs')
    from vs(1) have same: "t\<lparr>type_values := Some vs\<rparr> = t" by (cases t) simp
    have m: "(st_model st)\<lparr>entityTypes := Some ts\<rparr> = st_model st"
      using ts by (cases "st_model st") simp
    have e1: "(st_model st)\<lparr>entityTypes :=
                 map_option (\<lambda>m. obj_set m T (t\<lparr>type_values := Some vs\<rparr>))
                   (entityTypes (st_model st))\<rparr> = st_model st"
      unfolding same ts by (simp only: option.map obj_set_same [OF t] m)
    let ?dfe = "DIALOGFLOW_LM_ENTITY @ [(''id'', JStr x), (''name'', JStr T)]"
    let ?st' = "st\<lparr>returnFiles := returnFiles st @
                         [\<lparr>path = [''entities'', T @ ''_entries_'' @ L @ ''.json''],
                           content = JArr (map entry_of vs)\<rparr>]\<rparr>"
    let ?K = "\<lambda>(entityValues, vals).
               Inr (st\<lparr>st_model := (st_model st)\<lparr>entityTypes :=
                           map_option (\<lambda>m. obj_set m T (t\<lparr>type_values := Some vals\<rparr>))
                             (entityTypes (st_model st))\<rparr>,
                       returnFiles := returnFiles st @
                         [\<lparr>path = [''entities'', T @ ''_entries_'' @ L @ ''.json''],
                           content = JArr entityValues\<rparr>]\<rparr>)"
    have f: "foldE (fromJovoModel_value ?dfe) ([], []) vs = Inr (map entry_of vs, vs)"
      using foldE_values_clean [OF template_flags, of vs x T "[]" "[]", OF vs(2)] by simp
    have "fromJovoModel_entries L ?dfe T t st
            = bindE (foldE (fromJovoModel_value ?dfe) ([], []) vs) ?K"
      using vs(1) Cons by (simp add: fromJovoModel_entries_def del: foldE.simps)
    also have "\<dots> = ?K (map entry_of vs, vs)" unfolding f by simp
    also have "\<dots> = Inr ?st'" by (simp add: e1)
    finally have "fromJovoModel_entries L ?dfe T t st = Inr ?st'" .
    moreover have "pushes L [EntriesFile T vs] st ?st'"
      by (rule pushes_one [where f = "\<lparr>path = [''entities'', T @ ''_entries_'' @ L @ ''.json''],
                           content = JArr (map entry_of vs)\<rparr>"])
         (simp_all add: file_matches_def kind_path_def)
    ultimately show ?thesis using vs(1) Cons by simp
  qed
qed

lemma fromJovoModel_entityType_clean:
  assumes ts: "entityTypes (st_model st) = Some ts" and t: "map_of ts T = Some t"
    and rt: "round_trip_type (T, t)"
  shows "\<exists>st'. fromJovoModel_entityType u L st T = Inr st'
           \<and> pushes L (TypeFile T # (case type_values t of None \<Rightarrow> [] | Some [] \<Rightarrow> []
                        | Some (v # vs) \<Rightarrow> [EntriesFile T (v # vs)])) st st'"
proof -
  let ?dfe = "DIALOGFLOW_LM_ENTITY @ [(''id'', JStr (u (next_uuid st))), (''name'', JStr T)]"
  let ?st1 = "st\<lparr>returnFiles := returnFiles st @
                    [\<lparr>path = [''entities'', T @ ''.json''], content = JObj ?dfe\<rparr>],
                  next_uuid := next_uuid st + 1\<rparr>"
  from rt have d: "type_dialogflow t = None" by (simp add: round_trip_type_def)
  have ts1: "entityTypes (st_model ?st1) = Some ts" using ts by simp
  from fromJovoModel_entries_clean [OF ts1 t rt, of L "u (next_uuid st)"]
  obtain st' where st': "fromJovoModel_entries L ?dfe T t ?st1 = Inr st'"
    and p: "pushes L (case type_values t of None \<Rightarrow> [] | Some [] \<Rightarrow> []
                        | Some (v # vs) \<Rightarrow> [EntriesFile T (v # vs)]) ?st1 st'"
    by blast
  have p1: "pushes L [TypeFile T] st ?st1"
    by (rule pushes_one [where f = "\<lparr>path = [''entities'', T @ ''.json''], content = JObj ?dfe\<rparr>"])
       (simp_all add: file_matches_def kind_path_def)
  have "fromJovoModel_entityType u L st T = Inr st'"
    using ts t st' entity_record_plain [OF d, of "u (next_uuid st)" T]
    by (simp add: fromJovoModel_entityType_def hasEntityTypes_def getEntityTypeByName_def)
  with pushes_trans [OF p1 p] show ?thesis by simp
qed

lemma startsWith_nonempty: "startsWith d ''@sys.'' \<Longrightarrow> d \<noteq> []"
  by (auto simp: startsWith_def)

lemma fromJovoModel_entity_clean:
  assumes ts: "declared_types (st_model st) = ts"
    and re: "round_trip_entity ts p"
  shows "\<exists>st'. fromJovoModel_entity u L K (st, ps) p = Inr (st', ps @ [parameter_of p])
           \<and> pushes L (entity_kinds ts p) st st'"
proof -
  obtain E e where p: "p = (E, e)" by (cases p)
  from re p have nd: "entity_dialogflow e = None" by (simp add: round_trip_entity_def)
  from re p obtain r where r: "entity_type e = Some r"
    by (cases "entity_type e") (simp_all add: round_trip_entity_def)
  show ?thesis
  proof (cases r)
    case (TypeName T)
    with re p r have T: "T \<noteq> []" "\<not> startsWith T ''@sys.''"
      and c: "case map_of ts T of None \<Rightarrow> False | Some t \<Rightarrow> round_trip_type (T, t)"
      by (simp_all add: round_trip_entity_def)
    from c obtain t where t: "map_of ts T = Some t" and rt: "round_trip_type (T, t)"
      by (cases "map_of ts T") simp_all
    from t ts have ts': "entityTypes (st_model st) = Some ts"
      by (cases "entityTypes (st_model st)") (auto simp: declared_types_def)
    from fromJovoModel_entityType_clean [OF ts' t rt, of u L]
    obtain st' where st': "fromJovoModel_entityType u L st T = Inr st'"
      and push: "pushes L (TypeFile T # (case type_values t of None \<Rightarrow> [] | Some [] \<Rightarrow> []
                        | Some (v # vs) \<Rightarrow> [EntriesFile T (v # vs)])) st st'"
      by blast
    have dt: "entity_dataType K E e = Inr T"
      using r TypeName T(1) by (simp add: entity_dataType_def)
    have pr: "parameter_record E e (''@'' @ T) = Inr [(''isList'', JBool False), (''name'', JStr E),
                          (''value'', JStr (''$'' @ E)), (''dataType'', JStr (''@'' @ T))]"
      using nd by (simp add: parameter_record_def)
    have "fromJovoModel_entity u L K (st, ps) p = Inr (st', ps @ [parameter_of p])"
      unfolding p fromJovoModel_entity_def
      using dt T(2) st' pr r TypeName
      by (simp add: BUILTIN_PREFIX_def parameter_of_def data_type_of_def)
    moreover have "entity_kinds ts p = TypeFile T # (case type_values t of None \<Rightarrow> []
                        | Some [] \<Rightarrow> [] | Some (v # vs) \<Rightarrow> [EntriesFile T (v # vs)])"
      using p r TypeName t by (simp add: entity_kinds_def custom_type_def)
    ultimately show ?thesis using push by simp
  next
    case (TypeObject ob)
    with re p r obtain d where ob: "ob = [(''dialogflow'', d)]" and d: "startsWith d ''@sys.''"
      by (cases ob; cases "tl ob") (auto simp: round_trip_entity_def)
    have dt: "entity_dataType K E e = Inr d"
      using r TypeObject ob startsWith_nonempty [OF d] by (simp add: entity_dataType_def)
    have pr: "parameter_record E e d = Inr [(''isList'', JBool False), (''name'', JStr E),
                          (''value'', JStr (''$'' @ E)), (''dataType'', JStr d)]"
      using nd by (simp add: parameter_record_def)
    have "fromJovoModel_entity u L K (st, ps) p = Inr (st, ps @ [parameter_of p])"
      unfolding p fromJovoModel_entity_def
      using dt d pr r TypeObject ob
      by (simp add: BUILTIN_PREFIX_def parameter_of_def data_type_of_def)
    moreover have "entity_kinds ts p = []"
      using p r TypeObject by (simp add: entity_kinds_def custom_type_def)
    ultimately show ?thesis by (simp add: pushes_refl)
  qed
qed

lemma foldE_entities_clean:
  shows "declared_types (st_model st) = ts \<Longrightarrow> list_all (round_trip_entity ts) es \<Longrightarrow>
         \<exists>st'. foldE (fromJovoModel_entity u L K) (st, ps) es = Inr (st', ps @ map parameter_of es)
           \<and> pushes L (concat (map (entity_kinds ts) es)) st st'"
proof (induction es arbitrary: st ps)
  case Nil
  then show ?case by (simp add: pushes_refl)
next
  case (Cons p es)
  from Cons.prems have re: "round_trip_entity ts p" and res: "list_all (round_trip_entity ts) es"
    by simp_all
  from fromJovoModel_entity_clean [OF Cons.prems(1) re, of u L K ps]
  obtain st1 where 1: "fromJovoModel_entity u L K (st, ps) p = Inr (st1, ps @ [parameter_of p])"
    and p1: "pushes L (entity_kinds ts p) st st1" by blast
  from p1 Cons.prems(1) have ts1: "declared_types (st_model st1) = ts"
    by (simp add: pushes_def)
  from Cons.IH [OF ts1 res, of "ps @ [parameter_of p]"]
  obtain st2 where 2: "foldE (fromJovoModel_entity u L K) (st1, ps @ [parameter_of p]) es
                         = Inr (st2, (ps @ [parameter_of p]) @ map parameter_of es)"
    and p2: "pushes L (concat (map (entity_kinds ts) es)) st1 st2" by blast
  from 1 2 have "foldE (fromJovoModel_entity u L K) (st, ps) (p # es)
                   = Inr (st2, ps @ map parameter_of (p # es))" by simp
  with pushes_trans [OF p1 p2] show ?case by auto
qed

lemma intent_record_clean:
  assumes ints: "intents (st_model st) = Some its" and ts: "declared_types (st_model st) = ts"
    and i: "map_of its K = Some i"
    and ri: "round_trip_intent ts (K, i)"
  shows "\<exists>st1 x. intent_record u L st K i = Inr (st1, (''id'', JStr x) # intent_fields K i)
           \<and> pushes L (concat (map (entity_kinds ts)
                          (case entities i of None \<Rightarrow> [] | Some es \<Rightarrow> es))) st st1"
proof -
  let ?st0 = "st\<lparr>next_uuid := next_uuid st + 1\<rparr>"
  let ?D = "[(''id'', JStr (u (next_uuid st))), (''name'', JStr K), (''auto'', JBool True),
             (''webhookUsed'', JBool True)]"
  from ri have nd: "intent_dialogflow i = None" by (simp add: round_trip_intent_def)
  have he: "hasEntities (st_model ?st0) K = (entities i \<noteq> None)"
    using ints i by (simp add: hasEntities_def getIntents_def)
  have p0: "pushes L [] st ?st0" by (simp add: pushes_def)
  show ?thesis
  proof (cases "entities i")
    case None
    with he nd have "intent_record u L st K i = Inr (?st0, (''id'', JStr (u (next_uuid st))) # intent_fields K i)"
      by (simp add: intent_record_def Let_def intent_fields_def)
    with p0 None show ?thesis by auto
  next
    case (Some es)
    with ri have res: "list_all (round_trip_entity ts) es"
      by (auto simp: round_trip_intent_def split: option.splits)
    have ge: "getEntities (st_model ?st0) K = es"
      using ints i Some by (simp add: getEntities_def getIntents_def)
    have ts0: "declared_types (st_model ?st0) = ts" using ts by simp
    from foldE_entities_clean [OF ts0 res, of u L K "[]"]
    obtain st1 where f: "foldE (fromJovoModel_entity u L K) (?st0, []) es
                           = Inr (st1, map parameter_of es)"
      and p1: "pushes L (concat (map (entity_kinds ts) es)) ?st0 st1" by auto
    have "intent_record u L st K i = Inr (st1, (''id'', JStr (u (next_uuid st))) # intent_fields K i)"
      using he ge Some f nd
      by (simp add: intent_record_def Let_def intent_fields_def del: foldE.simps)
    with pushes_trans [OF p0 p1] Some show ?thesis by auto
  qed
qed

lemma foldl_text_none:
  "list_all (\<lambda>p. entity_text (snd p) = None) es \<Longrightarrow>
   foldl (\<lambda>d (entityKey, entityData).
            case entity_text entityData of
              None \<Rightarrow> d
            | Some t \<Rightarrow> if entityKey = entity \<and> truthy t then obj_set d ''text'' t else d) d es = d"
  by (induction es arbitrary: d) (auto split: prod.splits)

lemma foldE_alias:
  "obj_get d ''text'' = JStr e \<Longrightarrow>
   \<exists>d'. foldE (\<lambda>d item.
            bindE (js_prop item ''name'') (\<lambda>name.
              if strict_eq name (JStr e)
              then bindE (js_prop item ''dataType'') (\<lambda>dataType.
                     Inr (obj_set (obj_set d ''alias'' name) ''meta'' dataType))
              else Inr d)) d (map parameter_of es) = Inr d'
     \<and> obj_get d' ''text'' = JStr e
     \<and> (obj_get d ''alias'' = JStr e \<or> e \<in> set (map fst es) \<longrightarrow> obj_get d' ''alias'' = JStr e)"
proof (induction es arbitrary: d)
  case Nil
  then show ?case by simp
next
  case (Cons p es)
  let ?S = "\<lambda>d item.
            bindE (js_prop item ''name'') (\<lambda>name.
              if strict_eq name (JStr e)
              then bindE (js_prop item ''dataType'') (\<lambda>dataType.
                     Inr (obj_set (obj_set d ''alias'' name) ''meta'' dataType))
              else Inr d)"
  let ?d1 = "if fst p = e
             then obj_set (obj_set d ''alias'' (JStr e)) ''meta'' (JStr (data_type_of (snd p)))
             else d"
  have s: "?S d (parameter_of p) = Inr ?d1"
    by (simp add: parameter_of_def js_prop_def obj_get_def strict_eq_def)
  have t1: "obj_get ?d1 ''text'' = JStr e"
    using Cons.prems by (simp add: obj_get_set)
  from Cons.IH [OF t1] obtain d' where
    f: "foldE ?S ?d1 (map parameter_of es) = Inr d'"
    and t: "obj_get d' ''text'' = JStr e"
    and a: "obj_get ?d1 ''alias'' = JStr e \<or> e \<in> set (map fst es) \<longrightarrow> obj_get d' ''alias'' = JStr e"
    by blast
  have a1: "obj_get d ''alias'' = JStr e \<or> fst p = e \<Longrightarrow> obj_get ?d1 ''alias'' = JStr e"
    by (auto simp: obj_get_set)
  have "foldE ?S d (map parameter_of (p # es)) = foldE ?S ?d1 (map parameter_of es)"
    by (simp only: list.map foldE.simps s bindE_simps)
  with f have "foldE ?S d (map parameter_of (p # es)) = Inr d'" by (simp only:)
  moreover have "obj_get d ''alias'' = JStr e \<or> e \<in> set (map fst (p # es))
                   \<longrightarrow> obj_get d' ''alias'' = JStr e"
    using a a1 by auto
  ultimately show ?case using t by blast
qed

lemma entity_object_declared:
  assumes he: "hasEntities m K" and ge: "getEntities m K = es"
    and nt: "list_all (\<lambda>p. entity_text (snd p) = None) es"
    and e: "e \<in> set (map fst es)"
    and r: "obj_get dfi ''responses'' = JArr [JObj [(''parameters'', JArr (map parameter_of es))]]"
  shows "\<exists>seg. entity_object m K dfi e = Inr seg \<and> segment_ok (Marker e) seg"
proof -
  let ?d0 = "[(''text'', JStr e), (''userDefined'', JBool True)]"
  have t0: "obj_get ?d0 ''text'' = JStr e" by (simp add: obj_get_def)
  from foldE_alias [OF t0, of es] e obtain d' where
    f: "foldE (\<lambda>d item.
            bindE (js_prop item ''name'') (\<lambda>name.
              if strict_eq name (JStr e)
              then bindE (js_prop item ''dataType'') (\<lambda>dataType.
                     Inr (obj_set (obj_set d ''alias'' name) ''meta'' dataType))
              else Inr d)) ?d0 (map parameter_of es) = Inr d'"
    and t: "obj_get d' ''text'' = JStr e" and a: "obj_get d' ''alias'' = JStr e"
    by blast
  have p: "lodash_get (at0 (obj_get dfi ''responses'')) ''parameters'' = JArr (map parameter_of es)"
    unfolding r by (simp add: at0_def lodash_get_def obj_get_def)
  have "entity_object m K dfi e = Inr (JObj d')"
    unfolding entity_object_def Let_def p ge
    using he f by (simp add: foldl_text_none [OF nt] truthy_def del: foldE.simps)
  with t a show ?thesis by (simp add: segment_ok_def)
qed

lemma mapE_segments:
  assumes "\<And>tok. tok \<in> set toks \<Longrightarrow> \<exists>seg. f tok = Inr seg \<and> segment_ok tok seg"
  shows "\<exists>d. mapE f toks = Inr d \<and> list_all2 segment_ok toks d"
  using assms
proof (induction toks)
  case Nil
  then show ?case by simp
next
  case (Cons tok toks)
  from Cons.prems [of tok] obtain seg where s: "f tok = Inr seg" "segment_ok tok seg" by auto
  from Cons.IH Cons.prems obtain d where d: "mapE f toks = Inr d" "list_all2 segment_ok toks d"
    by auto
  from s d show ?case by simp
qed

lemma phrase_data_clean:
  assumes md: "markers_declared names p"
    and eo: "\<And>e. e \<in> set names \<Longrightarrow> \<exists>seg. entity_object m K dfi e = Inr seg \<and> segment_ok (Marker e) seg"
  shows "\<exists>d. phrase_data m K dfi p = Inr d \<and> list_all2 segment_ok (phrase_tokens p) d"
proof -
  let ?f = "\<lambda>tok. case tok of
                     Literal t \<Rightarrow> Inr (text_object t)
                   | Marker entity \<Rightarrow> entity_object m K dfi entity"
  have "\<exists>seg. ?f tok = Inr seg \<and> segment_ok tok seg" if "tok \<in> set (scan_phrase p)" for tok
  proof (cases tok)
    case (Literal t)
    then show ?thesis by (simp add: segment_ok_def)
  next
    case (Marker e)
    with that md have "e \<in> set names" by (auto simp: markers_declared_def list_all_iff)
    from eo [OF this] Marker show ?thesis by simp
  qed
  from mapE_segments [of "scan_phrase p" ?f, OF this]
  obtain d where d: "mapE ?f (scan_phrase p) = Inr d" "list_all2 segment_ok (scan_phrase p) d"
    by blast
  show ?thesis
  proof (cases "scan_phrase p = []")
    case True
    with d show ?thesis
      by (simp add: phrase_data_def phrase_tokens_def segment_ok_def)
  next
    case False
    with d(2) have "d \<noteq> []" by auto
    with d False show ?thesis
      by (simp add: phrase_data_def phrase_tokens_def)
  qed
qed

lemma foldE_phrases_clean:
  assumes pd: "\<And>p. p \<in> set ps \<Longrightarrow>
                 \<exists>d. phrase_data m K dfi p = Inr d \<and> list_all2 segment_ok (phrase_tokens p) d"
  shows "\<exists>rs. foldE (fromJovoModel_phrase u L m K dfi) (n, rs0) ps = Inr (n + length ps, rs0 @ rs)
           \<and> list_all2 record_ok ps rs"
  using pd
proof (induction ps arbitrary: n rs0)
  case Nil
  then show ?case by simp
next
  case (Cons p ps)
  from Cons.prems [of p] obtain d where d: "phrase_data m K dfi p = Inr d"
    "list_all2 segment_ok (phrase_tokens p) d" by auto
  let ?r = "JObj [(''id'', JStr (u n)), (''data'', JArr d), (''isTemplate'', JBool False),
                  (''count'', JNum 0), (''lang'', JStr L)]"
  have 1: "fromJovoModel_phrase u L m K dfi (n, rs0) p = Inr (n + 1, rs0 @ [?r])"
    using d(1) by (simp add: fromJovoModel_phrase_def)
  have r: "record_ok p ?r" using d(2) by (simp add: record_ok_def obj_get_def)
  from Cons.IH [of "n + 1" "rs0 @ [?r]"] Cons.prems obtain rs where
    rs: "foldE (fromJovoModel_phrase u L m K dfi) (n + 1, rs0 @ [?r]) ps
           = Inr (n + 1 + length ps, (rs0 @ [?r]) @ rs)" "list_all2 record_ok ps rs"
    by auto
  have "foldE (fromJovoModel_phrase u L m K dfi) (n, rs0) (p # ps)
          = Inr (n + length (p # ps), rs0 @ (?r # rs))"
    using 1 rs(1) by simp
  with r rs(2) show ?case by blast
qed

lemma fromJovoModel_userSays_clean:
  assumes pd: "\<And>p. p \<in> set ps \<Longrightarrow>
                 \<exists>d. phrase_data (st_model st) K dfi p = Inr d
                       \<and> list_all2 segment_ok (phrase_tokens p) d"
  shows "\<exists>st'. fromJovoModel_userSays u L K dfi ps st = Inr st'
           \<and> pushes L (case ps of [] \<Rightarrow> [] | ph # ps' \<Rightarrow> [UserSaysFile K (ph # ps')]) st st'"
proof -
  from foldE_phrases_clean [of ps "st_model st" K dfi u L "next_uuid st" "[]", OF pd]
  obtain rs where f: "foldE (fromJovoModel_phrase u L (st_model st) K dfi) (next_uuid st, []) ps
                        = Inr (next_uuid st + length ps, rs)"
    and rs: "list_all2 record_ok ps rs" by auto
  show ?thesis
  proof (cases ps)
    case Nil
    with rs have "rs = []" by simp
    with f Nil show ?thesis
      by (simp add: fromJovoModel_userSays_def pushes_def)
  next
    case (Cons ph ps')
    with rs have ne: "rs \<noteq> []" by auto
    let ?file = "\<lparr>path = [''intents'', K @ ''_usersays_'' @ L @ ''.json''], content = JArr rs\<rparr>"
    let ?st' = "st\<lparr>returnFiles := returnFiles st @ [?file], next_uuid := next_uuid st + length ps\<rparr>"
    have "fromJovoModel_userSays u L K dfi ps st = Inr ?st'"
      unfolding fromJovoModel_userSays_def f using ne by simp
    moreover have "pushes L [UserSaysFile K ps] st ?st'"
      by (rule pushes_one [where f = ?file])
         (use rs in \<open>auto simp: file_matches_def kind_path_def\<close>)
    ultimately show ?thesis using Cons by auto
  qed
qed

lemma fromJovoModel_intent_clean:
  assumes ints: "intents (st_model st) = Some its" and ts: "declared_types (st_model st) = ts"
    and i: "map_of its K = Some i"
    and ri: "round_trip_intent ts (K, i)"
  shows "\<exists>st'. fromJovoModel_intent u L st (K, i) = Inr st'
           \<and> pushes L (intent_kinds ts (K, i)) st st'"
proof -
  let ?es = "case entities i of None \<Rightarrow> [] | Some es \<Rightarrow> es"
  from intent_record_clean [OF ints ts i ri, of u L]
  obtain st1 x where rec: "intent_record u L st K i = Inr (st1, (''id'', JStr x) # intent_fields K i)"
    and p1: "pushes L (concat (map (entity_kinds ts) ?es)) st st1" by blast
  let ?dfi = "(''id'', JStr x) # intent_fields K i"
  let ?file = "\<lparr>path = [''intents'', K @ ''.json''], content = JObj ?dfi\<rparr>"
  let ?st2 = "st1\<lparr>returnFiles := returnFiles st1 @ [?file]\<rparr>"
  from p1 have m1: "st_model st1 = st_model st" by (simp add: pushes_def)
  have p2: "pushes L [IntentFile K i] st1 ?st2"
    by (rule pushes_one [where f = ?file]) (auto simp: file_matches_def kind_path_def)
  from ri obtain ps where ps: "phrases i = Some ps"
    by (auto simp: round_trip_intent_def split: option.splits)
  let ?names = "map fst ?es"
  from ri ps have md: "list_all (markers_declared ?names) ps"
    by (auto simp: round_trip_intent_def split: option.splits)
  have eo: "\<exists>seg. entity_object (st_model ?st2) K ?dfi e = Inr seg \<and> segment_ok (Marker e) seg"
    if e: "e \<in> set ?names" for e
  proof (cases "entities i")
    case None
    with e show ?thesis by simp
  next
    case (Some es)
    with ri have res: "list_all (round_trip_entity ts) es"
      by (auto simp: round_trip_intent_def split: option.splits)
    then have nt: "list_all (\<lambda>p. entity_text (snd p) = None) es"
      by (auto simp: list_all_iff round_trip_entity_def)
    have he: "hasEntities (st_model ?st2) K"
      using ints i Some m1 by (simp add: hasEntities_def getIntents_def)
    have ge: "getEntities (st_model ?st2) K = es"
      using ints i Some m1 by (simp add: getEntities_def getIntents_def)
    have r: "obj_get ?dfi ''responses'' = JArr [JObj [(''parameters'', JArr (map parameter_of es))]]"
      using Some by (simp add: intent_fields_def obj_get_def)
    from e Some have "e \<in> set (map fst es)" by simp
    from entity_object_declared [OF he ge nt this r] show ?thesis .
  qed
  have pd: "\<exists>d. phrase_data (st_model ?st2) K ?dfi p = Inr d
             \<and> list_all2 segment_ok (phrase_tokens p) d" if "p \<in> set ps" for p
  proof -
    from that md have "markers_declared ?names p" by (simp add: list_all_iff)
    from phrase_data_clean [OF this eo] show ?thesis by blast
  qed
  from fromJovoModel_userSays_clean [of ps ?st2 K ?dfi u L, OF pd]
  obtain st' where us: "fromJovoModel_userSays u L K ?dfi ps ?st2 = Inr st'"
    and p3: "pushes L (case ps of [] \<Rightarrow> [] | ph # ps' \<Rightarrow> [UserSaysFile K (ph # ps')]) ?st2 st'"
    by blast
  have "fromJovoModel_intent u L st (K, i) = Inr st'"
    using rec us ps by (simp add: fromJovoModel_intent_def)
  moreover have "intent_kinds ts (K, i) = (concat (map (entity_kinds ts) ?es) @ [IntentFile K i])
                   @ (case ps of [] \<Rightarrow> [] | ph # ps' \<Rightarrow> [UserSaysFile K (ph # ps')])"
    using ps by (cases ps) (simp_all add: intent_kinds_def)
  ultimately show ?thesis
    using pushes_trans [OF pushes_trans [OF p1 p2] p3] by simp
qed

lemma foldE_intents_clean:
  assumes d: "distinct (map fst its)"
    and wi: "list_all (round_trip_intent ts) its"
  shows "set xs \<subseteq> set its \<Longrightarrow> intents (st_model st) = Some its \<Longrightarrow>
         declared_types (st_model st) = ts \<Longrightarrow>
         \<exists>st'. foldE (fromJovoModel_intent u L) st xs = Inr st'
           \<and> pushes L (concat (map (intent_kinds ts) xs)) st st'"
proof (induction xs arbitrary: st)
  case Nil
  then show ?case by (simp add: pushes_refl)
next
  case (Cons x xs)
  obtain K i where x: "x = (K, i)" by (cases x)
  with Cons.prems(1) have mem: "(K, i) \<in> set its" by simp
  with d have i: "map_of its K = Some i" by simp
  from mem wi have ri: "round_trip_intent ts (K, i)" by (auto simp: list_all_iff)
  from fromJovoModel_intent_clean [OF Cons.prems(2,3) i ri, of u L]
  obtain st1 where 1: "fromJovoModel_intent u L st (K, i) = Inr st1"
    and p1: "pushes L (intent_kinds ts (K, i)) st st1" by blast
  from p1 have m1: "st_model st1 = st_model st" by (simp add: pushes_def)
  from Cons.prems(1) have sub: "set xs \<subseteq> set its" by simp
  from Cons.IH [OF sub, of st1] Cons.prems(2,3) m1
  obtain st2 where 2: "foldE (fromJovoModel_intent u L) st1 xs = Inr st2"
    and p2: "pushes L (concat (map (intent_kinds ts) xs)) st1 st2" by auto
  from 1 2 x have "foldE (fromJovoModel_intent u L) st (x # xs) = Inr st2" by simp
  with pushes_trans [OF p1 p2] x show ?case by auto
qed

lemma fromJovoModel_clean:
  assumes rt: "round_trip_model m"
  shows "\<exists>fs. fromJovoModel u m L = Inr (fs, m)
           \<and> list_all2 (file_matches L)
                 (concat (map (intent_kinds (declared_types m)) (getIntents m))) fs"
proof -
  from rt have d: "distinct (map fst (getIntents m))"
    and wi: "list_all (round_trip_intent (declared_types m)) (getIntents m)"
    and nd: "model_dialogflow m = None"
    by (simp_all add: round_trip_model_def)
  let ?s0 = "\<lparr>st_model = m, returnFiles = [], next_uuid = 0\<rparr>"
  show ?thesis
  proof (cases "intents m")
    case None
    then have "fromJovoModel u m L = Inr ([], m)"
      using nd by (simp add: fromJovoModel_def getIntents_def fromJovoModel_vendor_def)
    with None show ?thesis by (simp add: getIntents_def)
  next
    case (Some its)
    then have g: "getIntents m = its" by (simp add: getIntents_def)
    from foldE_intents_clean [OF d wi, of its ?s0 u L] Some g
    obtain st' where f: "foldE (fromJovoModel_intent u L) ?s0 its = Inr st'"
      and p: "pushes L (concat (map (intent_kinds (declared_types m)) its)) ?s0 st'" by auto
    from p have m': "st_model st' = m"
      and fs: "list_all2 (file_matches L) (concat (map (intent_kinds (declared_types m)) its))
                 (returnFiles st')"
      by (auto simp: pushes_def)
    have "fromJovoModel u m L = Inr (returnFiles st', m)"
      using f g nd m' by (simp add: fromJovoModel_def fromJovoModel_vendor_def)
    with fs g show ?thesis by blast
  qed
qed

text \<open>File names, and the lookup of a companion file among the files of an export.\<close>

lemma startsWith_append: "startsWith (p @ t) p"
  by (simp add: startsWith_def)

lemma str_includes_prefix: "str_includes (p @ t) p"
  by (cases "p @ t") (simp_all add: startsWith_def, metis append_eq_conv_conj startsWith_def)

lemma str_includes_append_left: "str_includes t p \<Longrightarrow> str_includes (s @ t) p"
  by (induction s) simp_all

lemma str_includes_mid: "str_includes (a @ p @ b) p"
  by (rule str_includes_append_left) (rule str_includes_prefix)

lemma startsWith_append_dot:
  assumes "CHR ''.'' \<notin> set p" and "\<not> startsWith s p"
  shows "\<not> startsWith (s @ CHR ''.'' # t) p"
proof
  assume a: "startsWith (s @ CHR ''.'' # t) p"
  show False
  proof (cases "length p \<le> length s")
    case True
    with a assms(2) show False by (simp add: startsWith_def)
  next
    case False
    with a have "p = s @ take (length p - length s) (CHR ''.'' # t)"
      by (simp add: startsWith_def)
    moreover from False have "take (length p - length s) (CHR ''.'' # t)
                                = CHR ''.'' # take (length p - length s - 1) t"
      by (cases "length p - length s") simp_all
    ultimately have "CHR ''.'' \<in> set p" by (metis in_set_conv_decomp)
    with assms(1) show False by simp
  qed
qed

lemma str_includes_append_dot:
  assumes "CHR ''.'' \<notin> set p" and "\<not> str_includes (CHR ''.'' # t) p"
  shows "\<not> str_includes s p \<Longrightarrow> \<not> str_includes (s @ CHR ''.'' # t) p"
proof (induction s)
  case Nil
  with assms(2) show ?case by simp
next
  case (Cons c s)
  from Cons.prems have "\<not> startsWith (c # s) p" "\<not> str_includes s p" by simp_all
  with startsWith_append_dot [OF assms(1), of "c # s" t] Cons.IH show ?case by simp
qed

lemma json_name_usersays:
  "\<not> str_includes K ''usersays'' \<Longrightarrow> \<not> str_includes (K @ ''.json'') ''usersays''"
  using str_includes_append_dot [of "''usersays''" "''json''" K] by (simp add: startsWith_def)

lemma json_name_entries:
  "\<not> str_includes T ''entries'' \<Longrightarrow> \<not> str_includes (T @ ''.json'') ''entries''"
  using str_includes_append_dot [of "''entries''" "''json''" T] by (simp add: startsWith_def)

lemma usersays_name: "str_includes (K @ ''_usersays_'' @ t) ''usersays''"
  using str_includes_mid [of "K @ ''_''" "''usersays''" "''_'' @ t"] by simp

lemma entries_name: "str_includes (T @ ''_entries_'' @ t) ''entries''"
  using str_includes_mid [of "T @ ''_''" "''entries''" "''_'' @ t"] by simp

lemma list_all2_filter:
  assumes "list_all2 R xs ys" and "\<And>x y. R x y \<Longrightarrow> P x = Q y"
  shows "list_all2 R (filter P xs) (filter Q ys)"
  using assms by (induction xs ys rule: list_all2_induct) auto

lemma find_file_Some:
  "list_all2 (file_matches L) ks fs \<Longrightarrow> find_file fs name = Some f \<Longrightarrow>
   \<exists>k \<in> set ks. file_matches L k f \<and> kind_path L k ! 1 = name"
proof (induction ks fs rule: list_all2_induct)
  case Nil
  then show ?case by (simp add: find_file_def)
next
  case (Cons k ks f' fs)
  from Cons.hyps(1) have p: "path f' = kind_path L k" by (simp add: file_matches_def)
  show ?case
  proof (cases "kind_path L k ! 1 = name")
    case True
    with Cons.prems p have "f = f'"
      by (cases k) (simp_all add: find_file_def kind_path_def)
    with True Cons.hyps(1) show ?thesis by auto
  next
    case False
    with Cons.prems p have "find_file fs name = Some f"
      by (cases k) (simp_all add: find_file_def kind_path_def)
    from Cons.IH [OF this] show ?thesis by auto
  qed
qed

lemma find_file_exists:
  "list_all2 (file_matches L) ks fs \<Longrightarrow> k \<in> set ks \<Longrightarrow> kind_path L k ! 1 = name \<Longrightarrow>
   find_file fs name \<noteq> None"
proof (induction ks fs rule: list_all2_induct)
  case Nil
  then show ?case by simp
next
  case (Cons k' ks f' fs)
  from Cons.hyps(1) have p: "path f' = kind_path L k'" by (simp add: file_matches_def)
  show ?case
  proof (cases "kind_path L k' ! 1 = name")
    case True
    with p show ?thesis by (cases k') (simp_all add: find_file_def kind_path_def)
  next
    case False
    with Cons.prems have "k \<in> set ks" by auto
    from Cons.IH [OF this Cons.prems(2)] False p show ?thesis
      by (cases k') (simp_all add: find_file_def kind_path_def)
  qed
qed

lemma map_of_obj_set: "map_of (obj_set m k v) = (map_of m)(k \<mapsto> v)"
  by (induction m) (auto simp: fun_eq_iff)

lemma obj_set_fresh: "k \<notin> set (map fst m) \<Longrightarrow> obj_set m k v = m @ [(k, v)]"
  by (induction m) auto

text \<open>The import of the files of an export: the record of an intent, its parameters, and
  the segments and records of its sample file.\<close>

lemma skipDefaultIntentProps_exported:
  "skipDefaultIntentProps \<lparr>phrases = Some [], entities = None, intent_dialogflow = None\<rparr>
     (JObj ((''id'', JStr x) # intent_fields K i)) L
   = Inr \<lparr>phrases = Some [], entities = None,
          intent_dialogflow = Some [(''webhookUsed'', JBool True)]\<rparr>"
proof (cases "entities i")
  case None
  then show ?thesis
    by (simp add: skipDefaultIntentProps_def intent_fields_def lodash_get_def obj_get_def
          DEFAULT_INTENT_def strict_eq_def difference_def array_like_def set_dialogflow_def)
next
  case (Some es)
  then show ?thesis
    by (simp add: skipDefaultIntentProps_def skipDefaultIntentProps_responses_def
          intent_fields_def lodash_get_def obj_get_def at0_def js_length_def
          DEFAULT_INTENT_def strict_eq_def difference_def array_like_def set_dialogflow_def)
qed

lemma declared_entity_exported:
  assumes "round_trip_entity ts p"
  shows "declared_entity (parameter_of p) = Some p"
proof -
  obtain E e where p: "p = (E, e)" by (cases p)
  obtain ty tx d where e: "e = \<lparr>entity_type = ty, entity_text = tx, entity_dialogflow = d\<rparr>"
    by (cases e)
  from assms p e have tx: "tx = None" and d: "d = None" by (simp_all add: round_trip_entity_def)
  from assms p e obtain r where ty: "ty = Some r"
    by (cases ty) (simp_all add: round_trip_entity_def)
  show ?thesis
  proof (cases r)
    case (TypeName T)
    with assms p e ty have "\<not> startsWith T ''sys.''" by (simp add: round_trip_entity_def)
    then have "\<not> startsWith (''@'' @ T) ''@sys.''" by (simp add: startsWith_def)
    with TypeName p e ty tx d show ?thesis
      by (simp add: declared_entity_def parameter_of_def data_type_of_def lodash_get_def
            obj_get_def)
  next
    case (TypeObject ob)
    with assms p e ty obtain dt where ob: "ob = [(''dialogflow'', dt)]"
      and s: "startsWith dt ''@sys.''"
      by (cases ob; cases "tl ob") (auto simp: round_trip_entity_def)
    from s have "dt \<noteq> []" by (auto simp: startsWith_def)
    with TypeObject p e ty tx d ob s show ?thesis
      by (simp add: declared_entity_def parameter_of_def data_type_of_def lodash_get_def
            obj_get_def)
  qed
qed

lemma plain_parameter_exported: "plain_parameter (parameter_of p)"
  by (simp add: plain_parameter_def parameter_of_def lodash_get_def obj_get_def)

lemma foldl_declared_exported:
  "list_all (round_trip_entity ts) es \<Longrightarrow> distinct (map fst es) \<Longrightarrow>
   set (map fst acc) \<inter> set (map fst es) = {} \<Longrightarrow>
   foldl (\<lambda>ents p. case declared_entity p of None \<Rightarrow> ents | Some (k, e) \<Rightarrow> obj_set ents k e)
     acc (map parameter_of es) = acc @ es"
proof (induction es arbitrary: acc)
  case Nil
  then show ?case by simp
next
  case (Cons p es)
  obtain E e where p: "p = (E, e)" by (cases p)
  from Cons.prems(1) have "round_trip_entity ts p" by simp
  then have d: "declared_entity (parameter_of p) = Some p" by (rule declared_entity_exported)
  from Cons.prems(3) p have "E \<notin> set (map fst acc)" by auto
  then have s: "obj_set acc E e = acc @ [(E, e)]" by (rule obj_set_fresh)
  from Cons.prems p have "set (map fst (acc @ [(E, e)])) \<inter> set (map fst es) = {}" by auto
  from Cons.IH [OF _ _ this] Cons.prems(1,2)
  have "foldl (\<lambda>ents p. case declared_entity p of None \<Rightarrow> ents | Some (k, e) \<Rightarrow> obj_set ents k e)
          (acc @ [(E, e)]) (map parameter_of es) = (acc @ [(E, e)]) @ es" by simp
  with d p s show ?case by simp
qed

lemma toJovoModel_entities_exported:
  assumes "case entities i of None \<Rightarrow> True
           | Some es \<Rightarrow> distinct (map fst es) \<and> list_all (round_trip_entity ts) es"
  shows "toJovoModel_entities (JObj ((''id'', JStr x) # intent_fields K i))
         = Inr (case entities i of None \<Rightarrow> [] | Some es \<Rightarrow> es)"
proof (cases "entities i")
  case None
  then show ?thesis
    by (simp add: toJovoModel_entities_def intent_fields_def lodash_get_def obj_get_def truthy_def)
next
  case (Some es)
  with assms have d: "distinct (map fst es)" and r: "list_all (round_trip_entity ts) es"
    by simp_all
  have pl: "list_all plain_parameter (map parameter_of es)"
    by (simp add: list_all_iff plain_parameter_exported)
  have "foldl (\<lambda>ents p. case declared_entity p of None \<Rightarrow> ents | Some (k, e) \<Rightarrow> obj_set ents k e)
          [] (map parameter_of es) = [] @ es"
    by (rule foldl_declared_exported [OF r d]) simp
  with Some pl show ?thesis
    by (simp add: toJovoModel_entities_def intent_fields_def lodash_get_def obj_get_def truthy_def
          iterate_def toJovoModel_response_def foldE_parameters)
qed

lemma case_prod_Pair_id: "map (\<lambda>(k, e). (k, e)) es = es"
  by (induction es) auto

lemma toJovoModel_data_exported:
  assumes "segment_ok tok seg" and "tok \<noteq> Marker []"
  shows "toJovoModel_data (ph, ji) seg = Inr (ph @ render tok, ji)"
proof (cases tok)
  case (Literal t)
  with assms have seg: "seg = text_object t" by (simp add: segment_ok_def)
  have "(case entities ji of None \<Rightarrow> ji
         | Some es \<Rightarrow> ji\<lparr>entities := Some
             (map (\<lambda>(entityKey, entityData).
                if strict_eq (JStr entityKey) JUndefined
                then (entityKey, entityData\<lparr>entity_text := Some (JStr t)\<rparr>)
                else (entityKey, entityData)) es)\<rparr>) = ji"
    by (cases "entities ji") (simp_all add: case_prod_Pair_id strict_eq_def)
  with Literal seg show ?thesis
    by (simp add: toJovoModel_data_def text_object_def js_prop_def obj_get_def truthy_def
          strict_eq_def)
next
  case (Marker e)
  with assms obtain ob where seg: "seg = JObj ob" and t: "obj_get ob ''text'' = JStr e"
    and a: "obj_get ob ''alias'' = JStr e" by (auto simp: segment_ok_def)
  from Marker assms(2) have "e \<noteq> []" by simp
  with Marker seg t a show ?thesis
    by (simp add: toJovoModel_data_def js_prop_def truthy_def strict_eq_def)
qed

lemma foldE_data_exported:
  "list_all2 segment_ok toks segs \<Longrightarrow> Marker [] \<notin> set toks \<Longrightarrow>
   foldE toJovoModel_data (ph, ji) segs = Inr (ph @ concat (map render toks), ji)"
proof (induction toks segs arbitrary: ph rule: list_all2_induct)
  case Nil
  then show ?case by simp
next
  case (Cons tok toks seg segs)
  from Cons.prems have "tok \<noteq> Marker []" by auto
  from toJovoModel_data_exported [OF Cons.hyps(1) this]
  have 1: "toJovoModel_data (ph, ji) seg = Inr (ph @ render tok, ji)" .
  from Cons.prems have "Marker [] \<notin> set toks" by simp
  from Cons.IH [OF this]
  have 2: "foldE toJovoModel_data (ph @ render tok, ji) segs
            = Inr ((ph @ render tok) @ concat (map render toks), ji)" .
  from 1 2 show ?case by simp
qed

lemma phrase_tokens_render: "concat (map render (phrase_tokens p)) = p"
  by (simp add: phrase_tokens_def scan_phrase_render)

lemma phrase_tokens_markers:
  "markers_declared names p \<Longrightarrow> [] \<notin> set names \<Longrightarrow> Marker [] \<notin> set (phrase_tokens p)"
  by (auto simp: phrase_tokens_def markers_declared_def list_all_iff split: if_splits)

lemma toJovoModel_userSays_exported:
  assumes "record_ok p r" and "Marker [] \<notin> set (phrase_tokens p)" and "phrases ji = Some ps"
  shows "toJovoModel_userSays ji r = Inr (ji\<lparr>phrases := Some (ps @ [p])\<rparr>)"
proof -
  from assms(1) obtain ob d where r: "r = JObj ob" and d: "obj_get ob ''data'' = JArr d"
    and s: "list_all2 segment_ok (phrase_tokens p) d" by (auto simp: record_ok_def)
  from foldE_data_exported [OF s assms(2), of "[]" ji]
  have "foldE toJovoModel_data ([], ji) d = Inr (p, ji)" by (simp add: phrase_tokens_render)
  with r d assms(3) show ?thesis
    by (simp add: toJovoModel_userSays_def js_prop_def iterate_def)
qed

lemma foldE_userSays_exported:
  "list_all2 record_ok ps rs \<Longrightarrow> \<forall>p \<in> set ps. Marker [] \<notin> set (phrase_tokens p) \<Longrightarrow>
   phrases ji = Some ps0 \<Longrightarrow>
   foldE toJovoModel_userSays ji rs = Inr (ji\<lparr>phrases := Some (ps0 @ ps)\<rparr>)"
proof (induction ps rs arbitrary: ji ps0 rule: list_all2_induct)
  case Nil
  then show ?case by simp
next
  case (Cons p ps r rs)
  from Cons.prems have m: "Marker [] \<notin> set (phrase_tokens p)" by simp
  from toJovoModel_userSays_exported [OF Cons.hyps(1) m Cons.prems(2)]
  have 1: "toJovoModel_userSays ji r = Inr (ji\<lparr>phrases := Some (ps0 @ [p])\<rparr>)" .
  from Cons.prems have "\<forall>p \<in> set ps. Marker [] \<notin> set (phrase_tokens p)" by simp
  from Cons.IH [OF this, of "ji\<lparr>phrases := Some (ps0 @ [p])\<rparr>" "ps0 @ [p]"]
  have "foldE toJovoModel_userSays (ji\<lparr>phrases := Some (ps0 @ [p])\<rparr>) rs
          = Inr (ji\<lparr>phrases := Some ((ps0 @ [p]) @ ps)\<rparr>)" by simp
  with 1 show ?case by simp
qed

lemma entity_kinds_path:
  "k \<in> set (entity_kinds ts q) \<Longrightarrow> hd (kind_path L k) = ''entities''"
  by (auto simp: entity_kinds_def kind_path_def split: option.splits list.splits)

lemma intent_kinds_cases:
  assumes "k \<in> set (concat (map (intent_kinds ts) its))"
    and "hd (kind_path L k) = ''intents''"
  shows "\<exists>K i. (K, i) \<in> set its \<and>
           (k = IntentFile K i \<or>
            (\<exists>ps. phrases i = Some ps \<and> ps \<noteq> [] \<and> k = UserSaysFile K ps))"
proof -
  from assms(1) obtain p where p: "p \<in> set its" and k: "k \<in> set (intent_kinds ts p)" by auto
  obtain K i where pk: "p = (K, i)" by (cases p)
  from k pk consider
      (e) q where "k \<in> set (entity_kinds ts q)"
    | (i) "k = IntentFile K i"
    | (u) "k \<in> set (case phrases i of None \<Rightarrow> [] | Some [] \<Rightarrow> []
                     | Some (ph # ps) \<Rightarrow> [UserSaysFile K (ph # ps)])"
    by (auto simp: intent_kinds_def)
  then show ?thesis
  proof cases
    case e
    from entity_kinds_path [OF e, of L] assms(2) show ?thesis by simp
  next
    case i
    with p pk show ?thesis by auto
  next
    case u
    show ?thesis
    proof (cases "phrases i")
      case None
      with u show ?thesis by simp
    next
      case (Some ps)
      with u have "ps \<noteq> []" and "k = UserSaysFile K ps" by (cases ps; simp)+
      with Some p pk show ?thesis by auto
    qed
  qed
qed

lemma usersays_kind_member:
  assumes "(K, i) \<in> set its" and "phrases i = Some ps" and "ps \<noteq> []"
  shows "UserSaysFile K ps \<in> set (concat (map (intent_kinds ts) its))"
proof -
  from assms(2,3) have "UserSaysFile K ps \<in> set (intent_kinds ts (K, i))"
    by (cases ps) (simp_all add: intent_kinds_def)
  with assms(1) show ?thesis by auto
qed

lemma distinct_key: "distinct (map fst m) \<Longrightarrow> (k, a) \<in> set m \<Longrightarrow> (k, b) \<in> set m \<Longrightarrow> a = b"
  by (induction m) (auto simp: image_iff)

lemma find_file_usersays:
  assumes m: "list_all2 (file_matches L)
                (filter (\<lambda>k. length (kind_path L k) \<noteq> 0 \<and> hd (kind_path L k) = ''intents'')
                   (concat (map (intent_kinds ts) its))) ifs"
    and d: "distinct (map fst its)" and r: "list_all (round_trip_intent ts) its"
    and i: "(K, i) \<in> set its" and p: "phrases i = Some ps"
  shows "case find_file ifs (K @ ''_usersays_'' @ L @ ''.json'') of
           None \<Rightarrow> ps = []
         | Some f \<Rightarrow> \<exists>rs. content f = JArr rs \<and> list_all2 record_ok ps rs"
proof (cases "find_file ifs (K @ ''_usersays_'' @ L @ ''.json'')")
  case None
  have "ps = []"
  proof (rule ccontr)
    assume "ps \<noteq> []"
    from usersays_kind_member [OF i p this]
    have "UserSaysFile K ps \<in> set (filter (\<lambda>k. length (kind_path L k) \<noteq> 0
              \<and> hd (kind_path L k) = ''intents'') (concat (map (intent_kinds ts) its)))"
      by (simp add: kind_path_def)
    from find_file_exists [OF m this, of "K @ ''_usersays_'' @ L @ ''.json''"] None
    show False by (simp add: kind_path_def)
  qed
  with None show ?thesis by simp
next
  case (Some f)
  from find_file_Some [OF m Some] obtain k
    where k: "k \<in> set (concat (map (intent_kinds ts) its))"
      and h: "hd (kind_path L k) = ''intents''"
      and fm: "file_matches L k f"
      and n: "kind_path L k ! 1 = K @ ''_usersays_'' @ L @ ''.json''" by auto
  from intent_kinds_cases [OF k h] obtain K' i'
    where i': "(K', i') \<in> set its"
      and c: "k = IntentFile K' i' \<or>
              (\<exists>ps. phrases i' = Some ps \<and> ps \<noteq> [] \<and> k = UserSaysFile K' ps)" by blast
  from r i' have nu: "\<not> str_includes K' ''usersays''"
    by (auto simp: list_all_iff round_trip_intent_def)
  from c show ?thesis
  proof
    assume "k = IntentFile K' i'"
    with n have "K' @ ''.json'' = (K @ ''_usersays_'' @ L) @ ''.json''" by (simp add: kind_path_def)
    then have "K' = K @ ''_usersays_'' @ L" by (simp only: append_same_eq)
    with usersays_name [of K L] nu show ?thesis by simp
  next
    assume "\<exists>ps. phrases i' = Some ps \<and> ps \<noteq> [] \<and> k = UserSaysFile K' ps"
    then obtain ps' where p': "phrases i' = Some ps'" and k': "k = UserSaysFile K' ps'" by auto
    from n k' have "K' @ (''_usersays_'' @ L @ ''.json'') = K @ (''_usersays_'' @ L @ ''.json'')"
      by (simp add: kind_path_def)
    then have "K' = K" by (simp only: append_same_eq)
    with distinct_key [OF d i] i' have "i' = i" by simp
    with p p' have "ps' = ps" by simp
    with fm k' Some show ?thesis by (simp add: file_matches_def)
  qed
qed

lemma toJovoModel_phrases_exported:
  assumes m: "list_all2 (file_matches L)
                (filter (\<lambda>k. length (kind_path L k) \<noteq> 0 \<and> hd (kind_path L k) = ''intents'')
                   (concat (map (intent_kinds ts) its))) ifs"
    and d: "distinct (map fst its)" and r: "list_all (round_trip_intent ts) its"
    and i: "(K, i) \<in> set its" and p: "phrases i = Some ps"
    and mk: "\<forall>p \<in> set ps. Marker [] \<notin> set (phrase_tokens p)"
  shows "toJovoModel_phrases ifs L K \<lparr>phrases = Some [], entities = es, intent_dialogflow = df\<rparr>
         = Inr \<lparr>phrases = Some ps, entities = es, intent_dialogflow = df\<rparr>"
proof (cases "find_file ifs (K @ ''_usersays_'' @ L @ ''.json'')")
  case None
  with find_file_usersays [OF m d r i p] have "ps = []" by simp
  with None show ?thesis by (simp add: toJovoModel_phrases_def)
next
  case (Some f)
  with find_file_usersays [OF m d r i p] obtain rs
    where c: "content f = JArr rs" and rs: "list_all2 record_ok ps rs" by auto
  from foldE_userSays_exported [OF rs mk,
         of "\<lparr>phrases = Some [], entities = es, intent_dialogflow = df\<rparr>" "[]"]
  have "foldE toJovoModel_userSays \<lparr>phrases = Some [], entities = es, intent_dialogflow = df\<rparr> rs
          = Inr \<lparr>phrases = Some ps, entities = es, intent_dialogflow = df\<rparr>" by simp
  with Some c show ?thesis by (simp add: toJovoModel_phrases_def iterate_def)
qed

lemma round_trip_intent_markers:
  assumes "round_trip_intent ts (K, i)" and "phrases i = Some ps"
  shows "\<forall>p \<in> set ps. Marker [] \<notin> set (phrase_tokens p)"
proof (cases "entities i")
  case None
  with assms have a: "list_all (markers_declared []) ps" by (simp add: round_trip_intent_def)
  show ?thesis
  proof
    fix p assume "p \<in> set ps"
    with a have "markers_declared [] p" by (simp add: list_all_iff)
    then show "Marker [] \<notin> set (phrase_tokens p)" by (rule phrase_tokens_markers) simp
  qed
next
  case (Some es)
  with assms have a: "list_all (markers_declared (map fst es)) ps"
    and e: "list_all (round_trip_entity ts) es" by (simp_all add: round_trip_intent_def)
  from e have "[] \<notin> set (map fst es)" by (auto simp: list_all_iff round_trip_entity_def)
  then have ne: "[] \<notin> set (map fst es)" .
  show ?thesis
  proof
    fix p assume "p \<in> set ps"
    with a have "markers_declared (map fst es) p" by (simp add: list_all_iff)
    then show "Marker [] \<notin> set (phrase_tokens p)" using ne by (rule phrase_tokens_markers)
  qed
qed

lemma toJovoModel_intent_exported:
  assumes m: "list_all2 (file_matches L)
                (filter (\<lambda>k. length (kind_path L k) \<noteq> 0 \<and> hd (kind_path L k) = ''intents'')
                   (concat (map (intent_kinds ts) its))) ifs"
    and d: "distinct (map fst its)" and r: "list_all (round_trip_intent ts) its"
    and i: "(K, i) \<in> set its" and f: "file_matches L (IntentFile K i) f"
  shows "toJovoModel_intent ifs L (mdl\<lparr>intents := Some acc\<rparr>) f
         = Inr (mdl\<lparr>intents := Some (obj_set acc K
                  (i\<lparr>intent_dialogflow := Some [(''webhookUsed'', JBool True)]\<rparr>))\<rparr>)"
proof -
  from f obtain x where pa: "path f = [''intents'', K @ ''.json'']"
    and c: "content f = JObj ((''id'', JStr x) # intent_fields K i)"
    by (auto simp: file_matches_def kind_path_def)
  let ?C = "JObj ((''id'', JStr x) # intent_fields K i)"
  from r i have rt: "round_trip_intent ts (K, i)" by (auto simp: list_all_iff)
  then obtain ps where p: "phrases i = Some ps"
    by (cases "phrases i") (simp_all add: round_trip_intent_def)
  from rt have "\<not> str_includes K ''usersays''" by (simp add: round_trip_intent_def)
  then have n: "\<not> str_includes (K @ ''.json'') ''usersays''" by (rule json_name_usersays)
  have fb: "js_prop ?C ''fallbackIntent'' = Inr JUndefined"
    by (cases "entities i") (simp_all add: js_prop_def intent_fields_def obj_get_def)
  have nm: "js_prop ?C ''name'' = Inr (JStr K)"
    by (cases "entities i") (simp_all add: js_prop_def intent_fields_def obj_get_def)
  have ev: "lodash_get (at0 (lodash_get ?C ''events'')) ''name'' = JUndefined"
    by (cases "entities i") (simp_all add: lodash_get_def at0_def intent_fields_def obj_get_def)
  from rt p have "case entities i of None \<Rightarrow> True
           | Some es \<Rightarrow> distinct (map fst es) \<and> list_all (round_trip_entity ts) es"
    by (simp add: round_trip_intent_def split: option.splits)
  then have en: "toJovoModel_entities ?C = Inr (case entities i of None \<Rightarrow> [] | Some es \<Rightarrow> es)"
    by (rule toJovoModel_entities_exported)
  let ?df = "Some [(''webhookUsed'', JBool True)]"
  let ?j0 = "\<lparr>phrases = Some [], entities = None, intent_dialogflow = ?df\<rparr>"
  let ?es = "case entities i of None \<Rightarrow> [] | Some es \<Rightarrow> es"
  have j1: "(if 0 < length ?es then ?j0\<lparr>entities := Some ?es\<rparr> else ?j0)
            = \<lparr>phrases = Some [], entities = entities i, intent_dialogflow = ?df\<rparr>"
    using rt p by (cases "entities i") (simp_all add: round_trip_intent_def)
  from round_trip_intent_markers [OF rt p]
  have mk: "\<forall>p \<in> set ps. Marker [] \<notin> set (phrase_tokens p)" .
  have ph: "toJovoModel_phrases ifs L K
              \<lparr>phrases = Some [], entities = entities i, intent_dialogflow = ?df\<rparr>
            = Inr \<lparr>phrases = Some ps, entities = entities i, intent_dialogflow = ?df\<rparr>"
    by (rule toJovoModel_phrases_exported [OF m d r i p mk])
  from rt p have fin: "\<lparr>phrases = Some ps, entities = entities i, intent_dialogflow = ?df\<rparr>
                       = i\<lparr>intent_dialogflow := ?df\<rparr>"
    by (cases i) simp
  have "toJovoModel_intent ifs L (mdl\<lparr>intents := Some acc\<rparr>) f
        = bindE (skipDefaultIntentProps
                   \<lparr>phrases = Some [], entities = None, intent_dialogflow = None\<rparr> ?C L)
            (\<lambda>jovoIntent.
               bindE (toJovoModel_entities ?C) (\<lambda>es.
                 bindE (toJovoModel_phrases ifs L K
                          (if 0 < length es then jovoIntent\<lparr>entities := Some es\<rparr> else jovoIntent))
                   (\<lambda>jovoIntent2.
                      Inr (mdl\<lparr>intents := Some (obj_set acc K jovoIntent2)\<rparr>))))"
    by (simp add: toJovoModel_intent_def pa c n fb nm ev Let_def strict_eq_def)
  also have "\<dots> = bindE (toJovoModel_phrases ifs L K
                          (if 0 < length ?es then ?j0\<lparr>entities := Some ?es\<rparr> else ?j0))
                   (\<lambda>jovoIntent2.
                      Inr (mdl\<lparr>intents := Some (obj_set acc K jovoIntent2)\<rparr>))"
    by (simp only: skipDefaultIntentProps_exported en bindE_simps)
  also have "\<dots> = Inr (mdl\<lparr>intents := Some (obj_set acc K
                         \<lparr>phrases = Some ps, entities = entities i, intent_dialogflow = ?df\<rparr>)\<rparr>)"
    by (simp only: j1 ph bindE_simps)
  finally show ?thesis by (simp only: fin)
qed

lemma toJovoModel_intent_usersays:
  "file_matches L (UserSaysFile K ps) f \<Longrightarrow> toJovoModel_intent ifs L mdl f = Inr mdl"
  using usersays_name [of K "L @ ''.json''"]
  by (simp add: toJovoModel_intent_def file_matches_def kind_path_def)

lemma foldE_intent_files:
  fixes add :: "(string \<times> intent) list \<Rightarrow> file_kind \<Rightarrow> (string \<times> intent) list"
  defines "add \<equiv> \<lambda>acc k. case k of
             IntentFile K i \<Rightarrow>
               obj_set acc K (i\<lparr>intent_dialogflow := Some [(''webhookUsed'', JBool True)]\<rparr>)
           | _ \<Rightarrow> acc"
  assumes m: "list_all2 (file_matches L)
                (filter (\<lambda>k. length (kind_path L k) \<noteq> 0 \<and> hd (kind_path L k) = ''intents'')
                   (concat (map (intent_kinds ts) its))) ifs"
    and d: "distinct (map fst its)" and r: "list_all (round_trip_intent ts) its"
  shows "list_all2 (file_matches L) ks fs \<Longrightarrow>
         set ks \<subseteq> set (filter (\<lambda>k. length (kind_path L k) \<noteq> 0 \<and> hd (kind_path L k) = ''intents'')
                          (concat (map (intent_kinds ts) its))) \<Longrightarrow>
         foldE (toJovoModel_intent ifs L) (mdl\<lparr>intents := Some acc\<rparr>) fs
           = Inr (mdl\<lparr>intents := Some (foldl add acc ks)\<rparr>)"
proof (induction ks fs arbitrary: acc rule: list_all2_induct)
  case Nil
  then show ?case by simp
next
  case (Cons k ks f fs)
  from Cons.prems have k: "k \<in> set (concat (map (intent_kinds ts) its))"
    and h: "hd (kind_path L k) = ''intents''" by auto
  from Cons.prems have sub: "set ks \<subseteq> set (filter (\<lambda>k. length (kind_path L k) \<noteq> 0
          \<and> hd (kind_path L k) = ''intents'') (concat (map (intent_kinds ts) its)))" by simp
  from intent_kinds_cases [OF k h] obtain K i where i: "(K, i) \<in> set its"
    and c: "k = IntentFile K i \<or> (\<exists>ps. phrases i = Some ps \<and> ps \<noteq> [] \<and> k = UserSaysFile K ps)"
    by blast
  have step: "toJovoModel_intent ifs L (mdl\<lparr>intents := Some acc\<rparr>) f
                = Inr (mdl\<lparr>intents := Some (add acc k)\<rparr>)"
    using c
  proof
    assume e: "k = IntentFile K i"
    with Cons.hyps(1) have "file_matches L (IntentFile K i) f" by simp
    from toJovoModel_intent_exported [OF m d r i this] e show ?thesis
      by (simp add: add_def)
  next
    assume "\<exists>ps. phrases i = Some ps \<and> ps \<noteq> [] \<and> k = UserSaysFile K ps"
    then obtain ps where e: "k = UserSaysFile K ps" by auto
    with Cons.hyps(1) have "file_matches L (UserSaysFile K ps) f" by simp
    from toJovoModel_intent_usersays [OF this] e show ?thesis by (simp add: add_def)
  qed
  from Cons.IH [OF sub, of "add acc k"] step show ?case by simp
qed

lemma filter_entity_kinds:
  "filter (\<lambda>k. length (kind_path L k) \<noteq> 0 \<and> hd (kind_path L k) = ''intents'')
     (concat (map (entity_kinds ts) es)) = []"
  by (auto simp: filter_empty_conv dest: entity_kinds_path [of _ ts _ L])

lemma foldl_intent_kinds:
  fixes add :: "(string \<times> intent) list \<Rightarrow> file_kind \<Rightarrow> (string \<times> intent) list"
  defines "add \<equiv> \<lambda>acc k. case k of
             IntentFile K i \<Rightarrow>
               obj_set acc K (i\<lparr>intent_dialogflow := Some [(''webhookUsed'', JBool True)]\<rparr>)
           | _ \<Rightarrow> acc"
  shows "distinct (map fst its) \<Longrightarrow> set (map fst acc) \<inter> set (map fst its) = {} \<Longrightarrow>
         foldl add acc
           (filter (\<lambda>k. length (kind_path L k) \<noteq> 0 \<and> hd (kind_path L k) = ''intents'')
              (concat (map (intent_kinds ts) its)))
         = acc @ map (\<lambda>(K, i). (K, i\<lparr>intent_dialogflow := Some [(''webhookUsed'', JBool True)]\<rparr>))
                   its"
proof (induction its arbitrary: acc)
  case Nil
  then show ?case by simp
next
  case (Cons p its)
  obtain K i where p: "p = (K, i)" by (cases p)
  let ?P = "\<lambda>k. length (kind_path L k) \<noteq> 0 \<and> hd (kind_path L k) = ''intents''"
  let ?i = "i\<lparr>intent_dialogflow := Some [(''webhookUsed'', JBool True)]\<rparr>"
  from Cons.prems(2) p have "K \<notin> set (map fst acc)" by auto
  then have s: "obj_set acc K ?i = acc @ [(K, ?i)]" by (rule obj_set_fresh)
  let ?us = "case phrases i of None \<Rightarrow> [] | Some [] \<Rightarrow> []
             | Some (ph # ps) \<Rightarrow> [UserSaysFile K (ph # ps)]"
  have fe: "filter ?P (concat (map (entity_kinds ts)
              (case entities i of None \<Rightarrow> [] | Some es \<Rightarrow> es))) = []"
    by (rule filter_entity_kinds)
  have "filter ?P (intent_kinds ts (K, i)) = filter ?P (IntentFile K i # ?us)"
    by (simp only: intent_kinds_def filter_append fe fst_conv snd_conv append_Nil)
  also have "\<dots> = IntentFile K i # ?us"
    by (simp add: kind_path_def split: option.splits list.splits)
  finally have "foldl add acc (filter ?P (intent_kinds ts (K, i))) = foldl add acc (IntentFile K i # ?us)"
    by (simp only:)
  also have "\<dots> = obj_set acc K ?i"
    by (simp add: add_def split: option.splits list.splits)
  finally have one: "foldl add acc (filter ?P (intent_kinds ts (K, i))) = acc @ [(K, ?i)]"
    by (simp only: s)
  from Cons.prems p have "distinct (map fst its)"
    and "set (map fst (acc @ [(K, ?i)])) \<inter> set (map fst its) = {}" by auto
  from Cons.IH [OF this]
  have "foldl add (acc @ [(K, ?i)]) (filter ?P (concat (map (intent_kinds ts) its)))
          = (acc @ [(K, ?i)]) @ map (\<lambda>(K, i). (K, i\<lparr>intent_dialogflow :=
                                       Some [(''webhookUsed'', JBool True)]\<rparr>)) its" .
  with one p show ?case by simp
qed

text \<open>The import of the files of an entity type.\<close>

lemma intent_kinds_entity:
  assumes "q \<in> set (case entities (snd p) of None \<Rightarrow> [] | Some es \<Rightarrow> es)"
    and "k \<in> set (entity_kinds ts q)"
  shows "k \<in> set (intent_kinds ts p)"
proof -
  define xs where "xs = (case entities (snd p) of None \<Rightarrow> [] | Some es \<Rightarrow> es)"
  from assms(1) have "q \<in> set xs" unfolding xs_def .
  with assms(2) have "k \<in> set (concat (map (entity_kinds ts) xs))" by auto
  moreover have "intent_kinds ts p = concat (map (entity_kinds ts) xs) @
      IntentFile (fst p) (snd p) #
      (case phrases (snd p) of None \<Rightarrow> [] | Some [] \<Rightarrow> []
       | Some (ph # ps) \<Rightarrow> [UserSaysFile (fst p) (ph # ps)])"
    unfolding intent_kinds_def xs_def ..
  ultimately show ?thesis by (simp only: set_append) blast
qed

lemma intent_kinds_entity_cases:
  assumes "k \<in> set (intent_kinds ts p)" and "hd (kind_path L k) = ''entities''"
  shows "\<exists>q. q \<in> set (case entities (snd p) of None \<Rightarrow> [] | Some es \<Rightarrow> es)
              \<and> k \<in> set (entity_kinds ts q)"
proof -
  define xs where "xs = (case entities (snd p) of None \<Rightarrow> [] | Some es \<Rightarrow> es)"
  define us where "us = (case phrases (snd p) of None \<Rightarrow> [] | Some [] \<Rightarrow> []
                         | Some (ph # ps) \<Rightarrow> [UserSaysFile (fst p) (ph # ps)])"
  have "intent_kinds ts p = concat (map (entity_kinds ts) xs) @ IntentFile (fst p) (snd p) # us"
    unfolding intent_kinds_def xs_def us_def ..
  with assms(1) have "k \<in> set (concat (map (entity_kinds ts) xs) @ IntentFile (fst p) (snd p) # us)"
    by (simp only:)
  then have "k \<in> set (concat (map (entity_kinds ts) xs)) \<or> k = IntentFile (fst p) (snd p)
                      \<or> k \<in> set us"
    by (simp only: set_append set_simps Un_iff insert_iff)
  moreover have "k \<noteq> IntentFile (fst p) (snd p)" using assms(2) by (auto simp: kind_path_def)
  moreover have "k \<notin> set us"
  proof
    assume "k \<in> set us"
    then have "\<exists>ps. k = UserSaysFile (fst p) ps"
      by (cases "phrases (snd p)"; cases "the (phrases (snd p))") (simp_all add: us_def)
    with assms(2) show False by (auto simp: kind_path_def)
  qed
  ultimately have "k \<in> set (concat (map (entity_kinds ts) xs))" by blast
  then have "\<exists>q. q \<in> set xs \<and> k \<in> set (entity_kinds ts q)" by auto
  then show ?thesis unfolding xs_def .
qed

lemma entity_kinds_member:
  assumes "k \<in> set (entity_kinds ts q)"
  shows "\<exists>T t. custom_type (snd q) = Some T \<and> map_of ts T = Some t \<and>
           (k = TypeFile T \<or> (\<exists>vs. type_values t = Some vs \<and> vs \<noteq> [] \<and> k = EntriesFile T vs))"
proof (cases "custom_type (snd q)")
  case None
  with assms show ?thesis by (simp add: entity_kinds_def)
next
  case (Some T)
  show ?thesis
  proof (cases "map_of ts T")
    case None
    with Some assms show ?thesis by (simp add: entity_kinds_def)
  next
    case t: (Some t)
    show ?thesis
    proof (cases "type_values t")
      case None
      with Some t assms show ?thesis by (simp add: entity_kinds_def)
    next
      case v: (Some vs)
      with Some t assms show ?thesis by (cases vs) (auto simp: entity_kinds_def)
    qed
  qed
qed

lemma entity_kinds_cases:
  assumes "k \<in> set (concat (map (intent_kinds ts) its))"
    and "hd (kind_path L k) = ''entities''"
  shows "\<exists>T t. map_of ts T = Some t \<and> TypeFile T \<in> set (concat (map (intent_kinds ts) its)) \<and>
           (k = TypeFile T \<or>
            (\<exists>vs. type_values t = Some vs \<and> vs \<noteq> [] \<and> k = EntriesFile T vs))"
proof -
  from assms(1) obtain p where p: "p \<in> set its" and k: "k \<in> set (intent_kinds ts p)" by auto
  from intent_kinds_entity_cases [OF k assms(2)] obtain q
    where qe: "q \<in> set (case entities (snd p) of None \<Rightarrow> [] | Some es \<Rightarrow> es)"
      and q: "k \<in> set (entity_kinds ts q)" by blast
  from entity_kinds_member [OF q] obtain T t
    where c: "custom_type (snd q) = Some T" and t: "map_of ts T = Some t"
      and kk: "k = TypeFile T \<or>
               (\<exists>vs. type_values t = Some vs \<and> vs \<noteq> [] \<and> k = EntriesFile T vs)" by blast
  from c t have "TypeFile T \<in> set (entity_kinds ts q)" by (simp add: entity_kinds_def)
  from intent_kinds_entity [OF qe this] p
  have mem: "TypeFile T \<in> set (concat (map (intent_kinds ts) its))" by auto
  with t kk show ?thesis by blast
qed

lemma entries_kind_member:
  assumes "TypeFile T \<in> set (concat (map (intent_kinds ts) its))"
    and "map_of ts T = Some t" and "type_values t = Some vs" and "vs \<noteq> []"
  shows "EntriesFile T vs \<in> set (concat (map (intent_kinds ts) its))"
proof -
  from assms(1) obtain p where p: "p \<in> set its" and k: "TypeFile T \<in> set (intent_kinds ts p)"
    by auto
  have "hd (kind_path L (TypeFile T)) = ''entities''" for L by (simp add: kind_path_def)
  from intent_kinds_entity_cases [OF k this] obtain q
    where qe: "q \<in> set (case entities (snd p) of None \<Rightarrow> [] | Some es \<Rightarrow> es)"
      and q: "TypeFile T \<in> set (entity_kinds ts q)" by blast
  from entity_kinds_member [OF q] have "custom_type (snd q) = Some T" by auto
  with assms(2,3,4) have "EntriesFile T vs \<in> set (entity_kinds ts q)"
    by (cases vs) (simp_all add: entity_kinds_def)
  from intent_kinds_entity [OF qe this] p show ?thesis by auto
qed

lemma type_file_ok:
  assumes r: "list_all (round_trip_intent ts) its"
    and k: "TypeFile T \<in> set (concat (map (intent_kinds ts) its))"
    and t: "map_of ts T = Some t"
  shows "round_trip_type (T, t)"
proof -
  from k obtain p where p: "p \<in> set its" and kp: "TypeFile T \<in> set (intent_kinds ts p)" by auto
  have "hd (kind_path L (TypeFile T)) = ''entities''" for L by (simp add: kind_path_def)
  from intent_kinds_entity_cases [OF kp this] obtain q
    where qe: "q \<in> set (case entities (snd p) of None \<Rightarrow> [] | Some es \<Rightarrow> es)"
      and q: "TypeFile T \<in> set (entity_kinds ts q)" by blast
  from entity_kinds_member [OF q] have c: "custom_type (snd q) = Some T" by auto
  from r p have rp: "round_trip_intent ts (fst p, snd p)" by (simp add: list_all_iff)
  have re: "round_trip_entity ts q"
  proof (cases "entities (snd p)")
    case None
    with qe show ?thesis by simp
  next
    case (Some es)
    with rp have "list_all (round_trip_entity ts) es"
      by (cases "phrases (snd p)") (simp_all add: round_trip_intent_def)
    with qe Some show ?thesis by (simp add: list_all_iff)
  qed
  from c obtain r' where e: "entity_type (snd q) = Some r'"
    by (cases "entity_type (snd q)") (simp_all add: custom_type_def)
  with c have "r' = TypeName T" by (cases r') (simp_all add: custom_type_def)
  with re e t show ?thesis by (simp add: round_trip_entity_def)
qed

lemma find_file_entries:
  assumes m: "list_all2 (file_matches L)
                (filter (\<lambda>k. length (kind_path L k) \<noteq> 0 \<and> hd (kind_path L k) = ''entities'')
                   (concat (map (intent_kinds ts) its))) efs"
    and r: "list_all (round_trip_intent ts) its"
    and k: "TypeFile T \<in> set (concat (map (intent_kinds ts) its))"
    and t: "map_of ts T = Some t" and v: "type_values t = Some vs"
  shows "case find_file efs (T @ ''_entries_'' @ L @ ''.json'') of
           None \<Rightarrow> vs = []
         | Some f \<Rightarrow> content f = JArr (map entry_of vs)"
proof (cases "find_file efs (T @ ''_entries_'' @ L @ ''.json'')")
  case None
  have "vs = []"
  proof (rule ccontr)
    assume "vs \<noteq> []"
    from entries_kind_member [OF k t v this]
    have "EntriesFile T vs \<in> set (filter (\<lambda>k. length (kind_path L k) \<noteq> 0
              \<and> hd (kind_path L k) = ''entities'') (concat (map (intent_kinds ts) its)))"
      by (simp add: kind_path_def)
    from find_file_exists [OF m this, of "T @ ''_entries_'' @ L @ ''.json''"] None
    show False by (simp add: kind_path_def)
  qed
  with None show ?thesis by simp
next
  case (Some f)
  from find_file_Some [OF m Some] obtain k'
    where k': "k' \<in> set (concat (map (intent_kinds ts) its))"
      and h: "hd (kind_path L k') = ''entities''"
      and fm: "file_matches L k' f"
      and n: "kind_path L k' ! 1 = T @ ''_entries_'' @ L @ ''.json''" by auto
  from entity_kinds_cases [OF k' h] obtain T' t'
    where t': "map_of ts T' = Some t'"
      and mem': "TypeFile T' \<in> set (concat (map (intent_kinds ts) its))"
      and c: "k' = TypeFile T' \<or>
              (\<exists>vs. type_values t' = Some vs \<and> vs \<noteq> [] \<and> k' = EntriesFile T' vs)" by blast
  from type_file_ok [OF r mem' t'] have ne: "\<not> str_includes T' ''entries''"
    by (simp add: round_trip_type_def)
  from c show ?thesis
  proof
    assume "k' = TypeFile T'"
    with n have "T' @ ''.json'' = (T @ ''_entries_'' @ L) @ ''.json''" by (simp add: kind_path_def)
    then have "T' = T @ ''_entries_'' @ L" by (simp only: append_same_eq)
    with entries_name [of T L] ne show ?thesis by simp
  next
    assume "\<exists>vs. type_values t' = Some vs \<and> vs \<noteq> [] \<and> k' = EntriesFile T' vs"
    then obtain vs' where v': "type_values t' = Some vs'" and e: "k' = EntriesFile T' vs'" by auto
    from n e have "T' @ (''_entries_'' @ L @ ''.json'') = T @ (''_entries_'' @ L @ ''.json'')"
      by (simp add: kind_path_def)
    then have "T' = T" by (simp only: append_same_eq)
    with t t' have "t' = t" by simp
    with v v' have "vs' = vs" by simp
    with fm e Some show ?thesis by (simp add: file_matches_def)
  qed
qed

lemma round_trip_value_cases:
  assumes "round_trip_value val"
  obtains s syns where "val = ValueObject (JStr s) syns"
proof (cases val)
  case (ValueString x)
  with assms show ?thesis by (simp add: round_trip_value_def)
next
  case (ValueObject v syns)
  with assms have "clean_string v" by (simp add: round_trip_value_def)
  then obtain s where "v = JStr s" by (cases v) (simp_all add: clean_string_def)
  with ValueObject that show ?thesis by simp
qed

lemma filter_synonyms:
  assumes "list_all (\<lambda>x. clean_string x \<and> x \<noteq> JStr s) l"
  shows "filter (\<lambda>x. \<not> strict_eq x (JStr s)) (JStr s # l) = l"
proof -
  have "\<not> strict_eq x (JStr s)" if "x \<in> set l" for x
  proof -
    from assms that have c: "clean_string x" and n: "x \<noteq> JStr s" by (simp_all add: list_all_iff)
    from c obtain y where "x = JStr y" by (cases x) (simp_all add: clean_string_def)
    with n show ?thesis by (simp add: strict_eq_def)
  qed
  then have "filter (\<lambda>x. \<not> strict_eq x (JStr s)) l = l" by (simp add: filter_id_conv)
  moreover have "strict_eq (JStr s) (JStr s)" by (simp add: strict_eq_def)
  ultimately show ?thesis by simp
qed

lemma toJovoModel_entry_exported:
  assumes rv: "round_trip_value val" and en: "lodash_get C ''isEnum'' = JBool False"
    and re: "lodash_get C ''isRegexp'' = JBool False"
  shows "toJovoModel_entry C \<lparr>type_values = Some vs0, type_dialogflow = df\<rparr> (entry_of val)
         = Inr \<lparr>type_values = Some (vs0 @ [val]), type_dialogflow = df\<rparr>"
proof -
  from rv obtain s syns where val: "val = ValueObject (JStr s) syns"
    by (rule round_trip_value_cases)
  define l where "l = (case syns of None \<Rightarrow> [] | Some l \<Rightarrow> l)"
  from rv val have "list_all (\<lambda>x. clean_string x \<and> x \<noteq> JStr s) l"
    by (cases syns) (simp_all add: round_trip_value_def l_def)
  then have fs: "filter (\<lambda>x. \<not> strict_eq x (JStr s)) (JStr s # l) = l" by (rule filter_synonyms)
  from rv val have sy: "(if length l \<noteq> 0 then Some l else None) = syns"
    by (cases syns) (simp_all add: round_trip_value_def l_def)
  have e: "entry_of val = JObj [(''value'', JStr s), (''synonyms'', JArr (JStr s # l))]"
    by (simp add: entry_of_def val l_def)
  have 1: "js_prop (entry_of val) ''value'' = Inr (JStr s)"
    by (simp add: e js_prop_def obj_get_def)
  have 2: "js_prop (entry_of val) ''synonyms'' = Inr (JArr (JStr s # l))"
    by (simp add: e js_prop_def obj_get_def)
  have 3: "iterate (JArr (JStr s # l)) = Inr (JStr s # l)" by (simp add: iterate_def)
  have 4: "\<not> truthy (JBool False)" by (simp add: truthy_def)
  show ?thesis
    unfolding toJovoModel_entry_def 1 2 3 en re Let_def bindE_simps fs sy
    using 4 by (simp add: val)
qed

lemma foldE_entry_exported:
  assumes "lodash_get C ''isEnum'' = JBool False" and "lodash_get C ''isRegexp'' = JBool False"
  shows "list_all round_trip_value vs \<Longrightarrow>
         foldE (toJovoModel_entry C) \<lparr>type_values = Some vs0, type_dialogflow = df\<rparr>
           (map entry_of vs)
         = Inr \<lparr>type_values = Some (vs0 @ vs), type_dialogflow = df\<rparr>"
proof (induction vs arbitrary: vs0)
  case Nil
  then show ?case by simp
next
  case (Cons val vs)
  from Cons.prems have "round_trip_value val" by simp
  from toJovoModel_entry_exported [OF this assms]
  have 1: "toJovoModel_entry C \<lparr>type_values = Some vs0, type_dialogflow = df\<rparr> (entry_of val)
         = Inr \<lparr>type_values = Some (vs0 @ [val]), type_dialogflow = df\<rparr>" .
  from Cons.prems have "list_all round_trip_value vs" by simp
  from Cons.IH [OF this, of "vs0 @ [val]"] 1 show ?case by simp
qed

lemma toJovoModel_entity_exported:
  assumes m: "list_all2 (file_matches L)
                (filter (\<lambda>k. length (kind_path L k) \<noteq> 0 \<and> hd (kind_path L k) = ''entities'')
                   (concat (map (intent_kinds ts) its))) efs"
    and r: "list_all (round_trip_intent ts) its"
    and k: "TypeFile T \<in> set (concat (map (intent_kinds ts) its))"
    and t: "map_of ts T = Some t" and f: "file_matches L (TypeFile T) f"
  shows "toJovoModel_entity efs L (mdl\<lparr>entityTypes := Some acc\<rparr>) f
         = Inr (mdl\<lparr>entityTypes := Some (obj_set acc T t)\<rparr>)"
proof -
  from f obtain x where pa: "path f = [''entities'', T @ ''.json'']"
    and c: "content f = JObj (DIALOGFLOW_LM_ENTITY @ [(''id'', JStr x), (''name'', JStr T)])"
    by (auto simp: file_matches_def kind_path_def)
  let ?C = "JObj (DIALOGFLOW_LM_ENTITY @ [(''id'', JStr x), (''name'', JStr T)])"
  let ?e0 = "\<lparr>type_values = Some [], type_dialogflow = None\<rparr>"
  from type_file_ok [OF r k t] have rt: "round_trip_type (T, t)" .
  then obtain vs where v: "type_values t = Some vs"
    by (cases "type_values t") (simp_all add: round_trip_type_def)
  from rt v have rv: "list_all round_trip_value vs" by (simp add: round_trip_type_def)
  from rt have "\<not> str_includes T ''entries''" by (simp add: round_trip_type_def)
  then have n: "\<not> str_includes (T @ ''.json'') ''entries''" by (rule json_name_entries)
  have sk: "skipDefaultEntityProps ?e0 ?C = ?e0"
    by (simp add: skipDefaultEntityProps_def skipDefaultEntityProp_def DIALOGFLOW_LM_ENTITY_def
          DEFAULT_ENTITY_def lodash_get_def obj_get_def strict_eq_def)
  have nm: "js_prop ?C ''name'' = Inr (JStr T)"
    by (simp add: js_prop_def DIALOGFLOW_LM_ENTITY_def obj_get_def)
  have en: "lodash_get ?C ''isEnum'' = JBool False"
    by (simp add: lodash_get_def DIALOGFLOW_LM_ENTITY_def obj_get_def)
  have re: "lodash_get ?C ''isRegexp'' = JBool False"
    by (simp add: lodash_get_def DIALOGFLOW_LM_ENTITY_def obj_get_def)
  from rt v have fin: "\<lparr>type_values = Some vs, type_dialogflow = None\<rparr> = t"
    by (cases t) (simp add: round_trip_type_def)
  have es: "toJovoModel_entries efs L ?C T ?e0 = Inr t"
  proof (cases "find_file efs (T @ ''_entries_'' @ L @ ''.json'')")
    case None
    with find_file_entries [OF m r k t v] have "vs = []" by simp
    with None fin show ?thesis by (simp add: toJovoModel_entries_def)
  next
    case (Some g)
    with find_file_entries [OF m r k t v] have g: "content g = JArr (map entry_of vs)" by simp
    from foldE_entry_exported [OF en re rv, of "[]" None]
    have "foldE (toJovoModel_entry ?C) ?e0 (map entry_of vs) = Inr t" by (simp add: fin)
    with Some g show ?thesis by (simp add: toJovoModel_entries_def iterate_def)
  qed
  have "toJovoModel_entity efs L (mdl\<lparr>entityTypes := Some acc\<rparr>) f
        = bindE (toJovoModel_entries efs L ?C T (skipDefaultEntityProps ?e0 ?C))
            (\<lambda>jovoEntity'. Inr (mdl\<lparr>entityTypes := Some (obj_set acc T jovoEntity')\<rparr>))"
    by (simp add: toJovoModel_entity_def pa c n nm Let_def)
  also have "\<dots> = Inr (mdl\<lparr>entityTypes := Some (obj_set acc T t)\<rparr>)"
    by (simp only: sk es bindE_simps)
  finally show ?thesis .
qed

lemma toJovoModel_entity_entries:
  "file_matches L (EntriesFile T vs) f \<Longrightarrow> toJovoModel_entity efs L mdl f = Inr mdl"
  using entries_name [of T "L @ ''.json''"]
  by (simp add: toJovoModel_entity_def file_matches_def kind_path_def)

lemma foldE_entity_files:
  fixes ts :: "(string \<times> entity_type) list"
    and add :: "(string \<times> entity_type) list \<Rightarrow> file_kind \<Rightarrow> (string \<times> entity_type) list"
  defines "add \<equiv> \<lambda>acc k. case k of
             TypeFile T \<Rightarrow> (case map_of ts T of None \<Rightarrow> acc | Some t \<Rightarrow> obj_set acc T t)
           | _ \<Rightarrow> acc"
  assumes m: "list_all2 (file_matches L)
                (filter (\<lambda>k. length (kind_path L k) \<noteq> 0 \<and> hd (kind_path L k) = ''entities'')
                   (concat (map (intent_kinds ts) its))) efs"
    and r: "list_all (round_trip_intent ts) its"
  shows "list_all2 (file_matches L) ks fs \<Longrightarrow>
         set ks \<subseteq> set (filter (\<lambda>k. length (kind_path L k) \<noteq> 0 \<and> hd (kind_path L k) = ''entities'')
                          (concat (map (intent_kinds ts) its))) \<Longrightarrow>
         foldE (toJovoModel_entity efs L) (mdl\<lparr>entityTypes := Some acc\<rparr>) fs
           = Inr (mdl\<lparr>entityTypes := Some (foldl add acc ks)\<rparr>)"
proof (induction ks fs arbitrary: acc rule: list_all2_induct)
  case Nil
  then show ?case by simp
next
  case (Cons k ks f fs)
  from Cons.prems have k: "k \<in> set (concat (map (intent_kinds ts) its))"
    and h: "hd (kind_path L k) = ''entities''" by auto
  from Cons.prems have sub: "set ks \<subseteq> set (filter (\<lambda>k. length (kind_path L k) \<noteq> 0
          \<and> hd (kind_path L k) = ''entities'') (concat (map (intent_kinds ts) its)))" by simp
  from entity_kinds_cases [OF k h] obtain T t where t: "map_of ts T = Some t"
    and mem: "TypeFile T \<in> set (concat (map (intent_kinds ts) its))"
    and c: "k = TypeFile T \<or> (\<exists>vs. type_values t = Some vs \<and> vs \<noteq> [] \<and> k = EntriesFile T vs)"
    by blast
  have step: "toJovoModel_entity efs L (mdl\<lparr>entityTypes := Some acc\<rparr>) f
                = Inr (mdl\<lparr>entityTypes := Some (add acc k)\<rparr>)"
    using c
  proof
    assume e: "k = TypeFile T"
    with Cons.hyps(1) have "file_matches L (TypeFile T) f" by simp
    from toJovoModel_entity_exported [OF m r mem t this] e t show ?thesis
      by (simp add: add_def)
  next
    assume "\<exists>vs. type_values t = Some vs \<and> vs \<noteq> [] \<and> k = EntriesFile T vs"
    then obtain vs where e: "k = EntriesFile T vs" by auto
    with Cons.hyps(1) have "file_matches L (EntriesFile T vs) f" by simp
    from toJovoModel_entity_entries [OF this] e show ?thesis by (simp add: add_def)
  qed
  from Cons.IH [OF sub, of "add acc k"] step show ?case by simp
qed

lemma map_of_foldl_types:
  fixes ts :: "(string \<times> entity_type) list"
    and add :: "(string \<times> entity_type) list \<Rightarrow> file_kind \<Rightarrow> (string \<times> entity_type) list"
  defines "add \<equiv> \<lambda>acc k. case k of
             TypeFile T \<Rightarrow> (case map_of ts T of None \<Rightarrow> acc | Some t \<Rightarrow> obj_set acc T t)
           | _ \<Rightarrow> acc"
  shows "map_of (foldl add acc ks) T
         = (if TypeFile T \<in> set ks \<and> map_of ts T \<noteq> None then map_of ts T else map_of acc T)"
proof (induction ks arbitrary: acc)
  case Nil
  then show ?case by simp
next
  case (Cons k ks)
  have one: "map_of (add acc k) T
             = (if k = TypeFile T \<and> map_of ts T \<noteq> None then map_of ts T else map_of acc T)"
  proof (cases k)
    case (TypeFile T')
    then show ?thesis
      by (cases "map_of ts T'") (auto simp: add_def map_of_obj_set)
  qed (simp_all add: add_def)
  from Cons.IH [of "add acc k"] one show ?case by auto
qed

lemma set_map_filter: "set (List.map_filter f xs) = {y. \<exists>x \<in> set xs. f x = Some y}"
  by (induction xs) (auto simp: map_filter_simps split: option.splits)

lemma referenced_types_member:
  "T \<in> set (referenced_types m) \<longleftrightarrow>
         (\<exists>p \<in> set (getIntents m). \<exists>q \<in> set (case entities (snd p) of None \<Rightarrow> [] | Some es \<Rightarrow> es).
            custom_type (snd q) = Some T)"
proof -
  have e: "set (case entities (snd p) of None \<Rightarrow> []
                | Some es \<Rightarrow> List.map_filter (\<lambda>q. custom_type (snd q)) es)
           = {T. \<exists>q \<in> set (case entities (snd p) of None \<Rightarrow> [] | Some es \<Rightarrow> es).
                   custom_type (snd q) = Some T}" for p :: "string \<times> intent"
    by (cases "entities (snd p)") (simp_all add: set_map_filter)
  have "set (referenced_types m)
        = (\<Union>p \<in> set (getIntents m). set (case entities (snd p) of None \<Rightarrow> []
                | Some es \<Rightarrow> List.map_filter (\<lambda>q. custom_type (snd q)) es))"
    by (simp add: referenced_types_def)
  then show ?thesis by (simp only: e) blast
qed

lemma type_file_referenced:
  assumes r: "list_all (round_trip_intent ts) (getIntents m)"
  shows "TypeFile T \<in> set (concat (map (intent_kinds ts) (getIntents m)))
         \<longleftrightarrow> T \<in> set (referenced_types m)"
proof
  assume "TypeFile T \<in> set (concat (map (intent_kinds ts) (getIntents m)))"
  then obtain p where p: "p \<in> set (getIntents m)" and k: "TypeFile T \<in> set (intent_kinds ts p)" by auto
  have "hd (kind_path L (TypeFile T)) = ''entities''" for L by (simp add: kind_path_def)
  from intent_kinds_entity_cases [OF k this] obtain q
    where qe: "q \<in> set (case entities (snd p) of None \<Rightarrow> [] | Some es \<Rightarrow> es)"
      and q: "TypeFile T \<in> set (entity_kinds ts q)" by blast
  from entity_kinds_member [OF q] have "custom_type (snd q) = Some T" by auto
  with p qe show "T \<in> set (referenced_types m)"
    unfolding referenced_types_member by blast
next
  assume "T \<in> set (referenced_types m)"
  then obtain p q where p: "p \<in> set (getIntents m)"
    and qe: "q \<in> set (case entities (snd p) of None \<Rightarrow> [] | Some es \<Rightarrow> es)"
    and c: "custom_type (snd q) = Some T"
    unfolding referenced_types_member by blast
  from r p have rp: "round_trip_intent ts (fst p, snd p)" by (simp add: list_all_iff)
  have "round_trip_entity ts q"
  proof (cases "entities (snd p)")
    case None
    with qe show ?thesis by simp
  next
    case (Some es)
    with rp have "list_all (round_trip_entity ts) es"
      by (cases "phrases (snd p)") (simp_all add: round_trip_intent_def)
    with qe Some show ?thesis by (simp add: list_all_iff)
  qed
  with c have "map_of ts T \<noteq> None"
    by (cases "entity_type (snd q)"; cases "the (entity_type (snd q))"; cases "map_of ts T")
       (simp_all add: round_trip_entity_def custom_type_def)
  with c have "TypeFile T \<in> set (entity_kinds ts q)" by (auto simp: entity_kinds_def)
  from intent_kinds_entity [OF qe this] p
  show "TypeFile T \<in> set (concat (map (intent_kinds ts) (getIntents m)))" by auto
qed

lemma toJovoModel_exported:
  assumes fm: "list_all2 (file_matches L) (concat (map (intent_kinds ts) its)) fs"
    and d: "distinct (map fst its)" and r: "list_all (round_trip_intent ts) its"
  shows "\<exists>ets. toJovoModel fs L
           = Inr \<lparr>version = Some ''4.0'', invocation = Some [],
                  intents = Some (map (\<lambda>(K, i). (K, i\<lparr>intent_dialogflow :=
                                         Some [(''webhookUsed'', JBool True)]\<rparr>)) its),
                  entityTypes = Some ets, model_dialogflow = None\<rparr>
         \<and> (\<forall>T. map_of ets T
                = (if TypeFile T \<in> set (concat (map (intent_kinds ts) its))
                   then map_of ts T else None))"
proof -
  let ?ks = "concat (map (intent_kinds ts) its)"
  let ?Pi = "\<lambda>k. length (kind_path L k) \<noteq> 0 \<and> hd (kind_path L k) = ''intents''"
  let ?Pe = "\<lambda>k. length (kind_path L k) \<noteq> 0 \<and> hd (kind_path L k) = ''entities''"
  let ?Qi = "\<lambda>file. length (path file) \<noteq> 0 \<and> hd (path file) = ''intents''"
  let ?Qe = "\<lambda>file. length (path file) \<noteq> 0 \<and> hd (path file) = ''entities''"
  let ?addT = "\<lambda>acc k. case k of
             TypeFile T \<Rightarrow> (case map_of ts T of None \<Rightarrow> acc | Some t \<Rightarrow> obj_set acc T t)
           | _ \<Rightarrow> acc"
  let ?its = "map (\<lambda>(K, i). (K, i\<lparr>intent_dialogflow := Some [(''webhookUsed'', JBool True)]\<rparr>)) its"
  let ?m0 = "\<lparr>version = Some ''4.0'', invocation = Some [], intents = Some [],
              entityTypes = Some [], model_dialogflow = None\<rparr>"
  let ?ets = "foldl ?addT [] (filter ?Pe ?ks)"
  have mi: "list_all2 (file_matches L) (filter ?Pi ?ks) (filter ?Qi fs)"
    by (rule list_all2_filter [OF fm]) (simp add: file_matches_def)
  have me: "list_all2 (file_matches L) (filter ?Pe ?ks) (filter ?Qe fs)"
    by (rule list_all2_filter [OF fm]) (simp add: file_matches_def)
  have "foldE (toJovoModel_intent (filter ?Qi fs) L) (?m0\<lparr>intents := Some []\<rparr>) (filter ?Qi fs)
        = Inr (?m0\<lparr>intents := Some ([] @ ?its)\<rparr>)"
    using foldE_intent_files [OF mi d r mi subset_refl, where mdl = ?m0 and acc = "[]"]
          foldl_intent_kinds [OF d, where acc = "[]" and L = L and ts = ts]
    by simp
  then have s1: "foldE (toJovoModel_intent (filter ?Qi fs) L) ?m0 (filter ?Qi fs)
        = Inr \<lparr>version = Some ''4.0'', invocation = Some [], intents = Some ?its,
               entityTypes = Some [], model_dialogflow = None\<rparr>"
    by simp
  let ?m1 = "\<lparr>version = Some ''4.0'', invocation = Some [], intents = Some ?its,
               entityTypes = Some [], model_dialogflow = None\<rparr>"
  have "foldE (toJovoModel_entity (filter ?Qe fs) L) (?m1\<lparr>entityTypes := Some []\<rparr>) (filter ?Qe fs)
        = Inr (?m1\<lparr>entityTypes := Some ?ets\<rparr>)"
    using foldE_entity_files [OF me r me subset_refl, where mdl = ?m1 and acc = "[]"] by simp
  then have s2: "foldE (toJovoModel_entity (filter ?Qe fs) L) ?m1 (filter ?Qe fs)
        = Inr \<lparr>version = Some ''4.0'', invocation = Some [], intents = Some ?its,
               entityTypes = Some ?ets, model_dialogflow = None\<rparr>"
    by simp
  have res: "toJovoModel fs L
        = Inr \<lparr>version = Some ''4.0'', invocation = Some [], intents = Some ?its,
               entityTypes = Some ?ets, model_dialogflow = None\<rparr>"
    unfolding toJovoModel_def Let_def s1 bindE_simps s2 ..
  have look: "map_of ?ets T = (if TypeFile T \<in> set ?ks then map_of ts T else None)" for T
  proof -
    have "map_of ?ets T
          = (if TypeFile T \<in> set (filter ?Pe ?ks) \<and> map_of ts T \<noteq> None then map_of ts T
             else map_of [] T)"
      by (rule map_of_foldl_types)
    moreover have "TypeFile T \<in> set (filter ?Pe ?ks) \<longleftrightarrow> TypeFile T \<in> set ?ks"
      by (simp add: kind_path_def)
    ultimately show ?thesis by (cases "map_of ts T") simp_all
  qed
  from res look show ?thesis by blast
qed




end
